theory Spec2Isabelle
  imports Main
begin

section \<open>The Kaleidoscope front end (src/Kaleidoscope.cpp)\<close>

text \<open>
  The program keeps its whole state in file-level statics: the lexer's look-ahead
  character and its two result slots, the parser's current token and precedence table,
  the module under construction, the builder's insertion point and the symbol table of
  the function being lowered. The model threads one record of these through every
  function, together with the unread rest of standard input and the trace of what the
  program has written.

  Two library functions are parameters of the model: \<open>strtod\<close> (the C library's
  conversion of a literal's text to a double; the type of doubles is the type
  variable \<open>'d\<close>) and \<open>Folder\<close> (the constant folder of the IR builder, which may
  answer an instruction with an existing value instead of inserting it).
\<close>

subsection \<open>The IR objects the program builds\<close>

text \<open>
  Modelled from the spec: the IR-builder collaborator (LLVM), of which the repository
  holds only the calls. A value is a constant, an argument of a function (the function's
  address and the argument's index) or the result of an instruction. A function object
  has a name, its arguments' names and its basic blocks; the module lists its functions
  by address. An instruction is identified with the value it computes, so a block is the
  list of the instructions inserted into it. Names are kept as they are given: the
  renaming by which the library keeps the names of a symbol table distinct is not
  modelled, and where two functions have one name the lookup finds the older.
\<close>

datatype 'd Value =
    ConstantFP 'd
  | Argument nat nat
  | FAdd "'d Value" "'d Value"
  | FSub "'d Value" "'d Value"
  | FMul "'d Value" "'d Value"
  | FDiv "'d Value" "'d Value"
  | FCmpULT "'d Value" "'d Value"
  | UIToFP "'d Value"
  | Call nat "'d Value list"
  | Ret "'d Value"

record 'd Function =
  fn_name :: string
  fn_args :: "string list"
  fn_blocks :: "'d Value list list"

record 'd Module =
  Functions :: "(nat \<times> 'd Function) list"
  NextAddr :: nat

datatype 'd event =
    Stdout string
  | NumberSyntaxError 'd
  | PrintFunction "'d Function"
  | PrintModule "'d Module"

subsection \<open>The program state\<close>

record 'd state =
  stdin :: string
  out :: "'d event list"
  LastChar :: int
  IdentifierStr :: string
  NumVal :: 'd
  CurTok :: int
  BinopPrecedence :: "char \<rightharpoonup> int"
  TheModule :: "'d Module"
  Builder :: "(nat \<times> nat) option"
  NamedValues :: "string \<rightharpoonup> 'd Value option"

text \<open>
  A function of the program returns a value and the new state (\<open>Done\<close>), or the process
  has left through \<open>exit(1)\<close> in the state given (\<open>Exited\<close>). The recursive functions of
  the parser and the driver's loop carry a step budget; \<open>OutOfFuel\<close> says the budget was
  too small, never that the program stopped. The program itself always stops: a budget
  of four steps for each character of the input and nine more is enough for \<open>main\<close>,
  and a larger budget never changes an answer (lemma \<open>main_budget\<close> below).
\<close>

datatype ('a, 's) result = Done 'a 's | Exited 's | OutOfFuel

definition bind :: "('a, 's) result \<Rightarrow> ('a \<Rightarrow> 's \<Rightarrow> ('b, 's) result) \<Rightarrow> ('b, 's) result" where
  "bind r f = (case r of Done a s \<Rightarrow> f a s | Exited s \<Rightarrow> Exited s | OutOfFuel \<Rightarrow> OutOfFuel)"

subsection \<open>Lexer\<close>

abbreviation EOF :: int where "EOF \<equiv> - 1"
abbreviation tok_eof :: int where "tok_eof \<equiv> - 1"
abbreviation tok_def :: int where "tok_def \<equiv> - 2"
abbreviation tok_extern :: int where "tok_extern \<equiv> - 3"
abbreviation tok_identifier :: int where "tok_identifier \<equiv> - 4"
abbreviation tok_number :: int where "tok_number \<equiv> - 5"

text \<open>The character classes of \<open><cctype>\<close> in the C locale; all are false at \<open>EOF\<close>.\<close>

definition isspace :: "int \<Rightarrow> bool" where
  "isspace c = (c = 32 \<or> (9 \<le> c \<and> c \<le> 13))"

definition isdigit :: "int \<Rightarrow> bool" where
  "isdigit c = (48 \<le> c \<and> c \<le> 57)"

definition isalpha :: "int \<Rightarrow> bool" where
  "isalpha c = ((65 \<le> c \<and> c \<le> 90) \<or> (97 \<le> c \<and> c \<le> 122))"

definition isalnum :: "int \<Rightarrow> bool" where
  "isalnum c = (isalpha c \<or> isdigit c)"

definition isascii :: "int \<Rightarrow> bool" where
  "isascii c = (0 \<le> c \<and> c \<le> 127)"

text \<open>\<open>LastChar = getchar()\<close>: the next byte of standard input, or \<open>EOF\<close> at its end.\<close>

definition getchar :: "'d state \<Rightarrow> 'd state" where
  "getchar s = (case stdin s of
       [] \<Rightarrow> s\<lparr>LastChar := EOF\<rparr>
     | c # cs \<Rightarrow> s\<lparr>stdin := cs, LastChar := of_char c\<rparr>)"

text \<open>\<open>while(isspace(LastChar)) LastChar = getchar();\<close>\<close>

function skip_whitespace :: "'d state \<Rightarrow> 'd state" where
  "skip_whitespace s = (if isspace (LastChar s) then skip_whitespace (getchar s) else s)"
  by pat_completeness auto
termination
  by (relation "measure (\<lambda>s. length (stdin s) + (if isspace (LastChar s) then 1 else 0))")
     (auto simp: getchar_def isspace_def split: list.splits)

declare skip_whitespace.simps [simp del]

text \<open>\<open>while(isalnum((LastChar = getchar()))) IdentifierStr += LastChar;\<close>\<close>

function read_identifier :: "'d state \<Rightarrow> 'd state" where
  "read_identifier s =
     (let s1 = getchar s in
      if isalnum (LastChar s1)
      then read_identifier (s1\<lparr>IdentifierStr := IdentifierStr s1 @ [char_of (LastChar s1)]\<rparr>)
      else s1)"
  by pat_completeness auto
termination
  by (relation "measure (\<lambda>s. length (stdin s))")
     (auto simp: getchar_def isalnum_def isalpha_def isdigit_def split: list.splits)

declare read_identifier.simps [simp del]

text \<open>
  The \<open>do ... while(isdigit(LastChar) || LastChar == '.')\<close> of a number, with its locals
  \<open>NumStr\<close>, \<open>hasDecimal\<close> and \<open>decimalError\<close>.
\<close>

function read_number :: "string \<Rightarrow> bool \<Rightarrow> bool \<Rightarrow> 'd state \<Rightarrow> (string \<times> bool \<times> bool) \<times> 'd state" where
  "read_number NumStr hasDecimal decimalError s =
     (let decimalError1 = (if LastChar s = of_char CHR ''.'' \<and> hasDecimal then True else decimalError);
          hasDecimal1 = (if LastChar s = of_char CHR ''.'' then True else hasDecimal);
          NumStr1 = NumStr @ [char_of (LastChar s)];
          s1 = getchar s
      in if isdigit (LastChar s1) \<or> LastChar s1 = of_char CHR ''.''
         then read_number NumStr1 hasDecimal1 decimalError1 s1
         else ((NumStr1, hasDecimal1, decimalError1), s1))"
  by pat_completeness auto
termination
  by (relation "measure (\<lambda>(NumStr, hasDecimal, decimalError, s). length (stdin s))")
     (auto simp: getchar_def isdigit_def split: list.splits)

declare read_number.simps [simp del]

text \<open>\<open>do LastChar = getchar(); while(LastChar != EOF && LastChar != '\n' && LastChar != '\r');\<close>\<close>

function skip_comment :: "'d state \<Rightarrow> 'd state" where
  "skip_comment s =
     (let s1 = getchar s in
      if LastChar s1 \<noteq> EOF \<and> LastChar s1 \<noteq> 10 \<and> LastChar s1 \<noteq> 13
      then skip_comment s1 else s1)"
  by pat_completeness auto
termination
  by (relation "measure (\<lambda>s. length (stdin s))")
     (auto simp: getchar_def split: list.splits)

declare skip_comment.simps [simp del]

lemma stdin_skip_whitespace: "length (stdin (skip_whitespace s)) \<le> length (stdin s)"
proof (induction s rule: skip_whitespace.induct)
  case (1 s)
  show ?case
  proof (cases "isspace (LastChar s)")
    case True
    have "length (stdin (getchar s)) \<le> length (stdin s)"
      by (simp add: getchar_def split: list.splits)
    with 1 True show ?thesis by (subst skip_whitespace.simps) simp
  next
    case False
    then show ?thesis by (subst skip_whitespace.simps) simp
  qed
qed

lemma stdin_skip_comment:
  "LastChar (skip_comment s) \<noteq> EOF \<Longrightarrow> length (stdin (skip_comment s)) < length (stdin s)"
proof (induction s rule: skip_comment.induct)
  case (1 s)
  let ?s1 = "getchar s"
  show ?case
  proof (cases "LastChar ?s1 \<noteq> EOF \<and> LastChar ?s1 \<noteq> 10 \<and> LastChar ?s1 \<noteq> 13")
    case True
    then have eq: "skip_comment s = skip_comment ?s1"
      by (subst skip_comment.simps) (simp add: Let_def)
    have "length (stdin ?s1) \<le> length (stdin s)"
      by (simp add: getchar_def split: list.splits)
    moreover have "length (stdin (skip_comment ?s1)) < length (stdin ?s1)"
      using 1 True eq by simp
    ultimately show ?thesis using eq by simp
  next
    case False
    then have eq: "skip_comment s = ?s1"
      by (subst skip_comment.simps) (auto simp: Let_def)
    with 1(2) show ?thesis
      by (auto simp: getchar_def split: list.splits)
  qed
qed

text \<open>
  \<open>gettok\<close>: the next token from standard input. Tokens are the integers the source
  returns: the negative codes above, or a character's value.
\<close>

function gettok :: "(string \<Rightarrow> 'd) \<Rightarrow> 'd state \<Rightarrow> (int, 'd state) result" where
  "gettok strtod s0 =
     (let s = skip_whitespace s0 in
      if isalpha (LastChar s) then
        (let s1 = read_identifier (s\<lparr>IdentifierStr := [char_of (LastChar s)]\<rparr>) in
         if IdentifierStr s1 = ''def'' then Done tok_def s1
         else if IdentifierStr s1 = ''extern'' then Done tok_extern s1
         else Done tok_identifier s1)
      else if isdigit (LastChar s) \<or> LastChar s = of_char CHR ''.'' then
        (case read_number [] False False s of
           ((NumStr, hasDecimal, decimalError), s1) \<Rightarrow>
             let s2 = s1\<lparr>NumVal := strtod NumStr\<rparr> in
             if decimalError
             then Exited (s2\<lparr>out := out s2 @ [NumberSyntaxError (NumVal s2)]\<rparr>)
             else Done tok_number s2)
      else if LastChar s = of_char CHR ''#'' \<and> LastChar (skip_comment s) \<noteq> EOF then
        gettok strtod (skip_comment s)
      else
        (let s1 = (if LastChar s = of_char CHR ''#'' then skip_comment s else s) in
         if LastChar s1 = EOF then Done tok_eof s1
         else Done (LastChar s1) (getchar s1)))"
  by pat_completeness auto
termination
proof (relation "measure (\<lambda>(strtod, s). length (stdin s))")
  show "wf (measure (\<lambda>(strtod, s). length (stdin s)))" by simp
next
  fix strtod :: "string \<Rightarrow> 'd" and s0 s :: "'d state"
  assume s: "s = skip_whitespace s0"
    and c: "LastChar s = of_char CHR ''#'' \<and> LastChar (skip_comment s) \<noteq> EOF"
  have "length (stdin (skip_comment s)) < length (stdin s)"
    using c by (simp add: stdin_skip_comment)
  also have "\<dots> \<le> length (stdin s0)"
    unfolding s by (rule stdin_skip_whitespace)
  finally show "((strtod, skip_comment s), (strtod, s0)) \<in> measure (\<lambda>(strtod, s). length (stdin s))"
    by simp
qed

declare gettok.simps [simp del]

subsection \<open>Abstract syntax tree\<close>

datatype 'd ExprAST =
    NumberExprAST 'd
  | VariableExprAST string
  | BinaryExprAST char "'d ExprAST" "'d ExprAST"
  | CallExprAST string "'d ExprAST list"

datatype PrototypeAST = PrototypeAST (getName: string) (getArgs: "string list")

datatype 'd FunctionAST = FunctionAST (Proto: PrototypeAST) (Body: "'d ExprAST")

subsection \<open>Parser\<close>

text \<open>\<open>CurTok = gettok()\<close>\<close>

definition getNextToken :: "(string \<Rightarrow> 'd) \<Rightarrow> 'd state \<Rightarrow> (int, 'd state) result" where
  "getNextToken strtod s = bind (gettok strtod s) (\<lambda>tok s1. Done tok (s1\<lparr>CurTok := tok\<rparr>))"

text \<open>
  \<open>LogError\<close>, \<open>LogErrorP\<close> and \<open>LogErrorV\<close> write one line to standard output and return a
  null pointer; the model appends the line to the trace and the caller returns \<open>None\<close>.
\<close>

definition LogError :: "string \<Rightarrow> 'd state \<Rightarrow> 'd state" where
  "LogError Str s = s\<lparr>out := out s @ [Stdout (''Error: '' @ Str)]\<rparr>"

definition ParseNumberExpr :: "(string \<Rightarrow> 'd) \<Rightarrow> 'd state \<Rightarrow> ('d ExprAST option, 'd state) result" where
  "ParseNumberExpr strtod s =
     (let Result = NumberExprAST (NumVal s) in
      bind (getNextToken strtod s) (\<lambda>_ s1. Done (Some Result) s1))"

text \<open>
  \<open>BinopPrecedence[CurTok]\<close> is \<open>std::map::operator[]\<close>: a key that is absent is inserted
  with the value 0 before it is read.
\<close>

definition getTokPrecedence :: "'d state \<Rightarrow> int \<times> 'd state" where
  "getTokPrecedence s =
     (if \<not> isascii (CurTok s) then (- 1, s)
      else
        (case (case BinopPrecedence s (char_of (CurTok s)) of
                 None \<Rightarrow> (0, s\<lparr>BinopPrecedence := (BinopPrecedence s)(char_of (CurTok s) \<mapsto> 0)\<rparr>)
               | Some p \<Rightarrow> (p, s)) of
           (TokPrec, s1) \<Rightarrow> if TokPrec \<le> 0 then (- 1, s1) else (TokPrec, s1)))"

text \<open>
  The expression parser. \<open>ParseArgs\<close> is the \<open>while(true)\<close> loop of
  \<open>ParseIdentifierExpr\<close> with its local \<open>Args\<close>; \<open>ParseBinOpRHS\<close> is its own loop, one turn
  per call. Every call among them spends one unit of the budget.
\<close>

fun ParsePrimary :: "(string \<Rightarrow> 'd) \<Rightarrow> nat \<Rightarrow> 'd state \<Rightarrow> ('d ExprAST option, 'd state) result"
  and ParseParenExpr :: "(string \<Rightarrow> 'd) \<Rightarrow> nat \<Rightarrow> 'd state \<Rightarrow> ('d ExprAST option, 'd state) result"
  and ParseIdentifierExpr :: "(string \<Rightarrow> 'd) \<Rightarrow> nat \<Rightarrow> 'd state \<Rightarrow> ('d ExprAST option, 'd state) result"
  and ParseArgs :: "(string \<Rightarrow> 'd) \<Rightarrow> nat \<Rightarrow> 'd ExprAST list \<Rightarrow> 'd state \<Rightarrow> ('d ExprAST list option, 'd state) result"
  and ParseBinOpRHS :: "(string \<Rightarrow> 'd) \<Rightarrow> nat \<Rightarrow> int \<Rightarrow> 'd ExprAST \<Rightarrow> 'd state \<Rightarrow> ('d ExprAST option, 'd state) result"
  and ParseExpression :: "(string \<Rightarrow> 'd) \<Rightarrow> nat \<Rightarrow> 'd state \<Rightarrow> ('d ExprAST option, 'd state) result"
where
  "ParsePrimary strtod 0 s = OutOfFuel"
| "ParsePrimary strtod (Suc n) s =
     (if CurTok s = tok_identifier then ParseIdentifierExpr strtod n s
      else if CurTok s = tok_number then ParseNumberExpr strtod s
      else if CurTok s = of_char CHR ''('' then ParseParenExpr strtod n s
      else Done None (LogError ''Unknown token when expecting an expression'' s))"
| "ParseParenExpr strtod 0 s = OutOfFuel"
| "ParseParenExpr strtod (Suc n) s =
     bind (getNextToken strtod s) (\<lambda>_ s1.
     bind (ParseExpression strtod n s1) (\<lambda>V s2.
       case V of
         None \<Rightarrow> Done None s2
       | Some v \<Rightarrow>
           if CurTok s2 \<noteq> of_char CHR '')'' then Done None (LogError (''expected ')'' @ [CHR 0x27]) s2)
           else bind (getNextToken strtod s2) (\<lambda>_ s3. Done (Some v) s3)))"
| "ParseIdentifierExpr strtod 0 s = OutOfFuel"
| "ParseIdentifierExpr strtod (Suc n) s =
     (let IdName = IdentifierStr s in
      bind (getNextToken strtod s) (\<lambda>_ s1.
        if CurTok s1 \<noteq> of_char CHR ''('' then Done (Some (VariableExprAST IdName)) s1
        else
          bind (getNextToken strtod s1) (\<lambda>_ s2.
          bind (if CurTok s2 \<noteq> of_char CHR '')'' then ParseArgs strtod n [] s2
                else Done (Some []) s2) (\<lambda>r s3.
            case r of
              None \<Rightarrow> Done None s3
            | Some Args \<Rightarrow>
                bind (getNextToken strtod s3) (\<lambda>_ s4.
                  Done (Some (CallExprAST IdName Args)) s4)))))"
| "ParseArgs strtod 0 Args s = OutOfFuel"
| "ParseArgs strtod (Suc n) Args s =
     bind (ParseExpression strtod n s) (\<lambda>Arg s1.
       case Arg of
         None \<Rightarrow> Done None s1
       | Some a \<Rightarrow>
           let Args1 = Args @ [a] in
           if CurTok s1 = of_char CHR '')'' then Done (Some Args1) s1
           else if CurTok s1 \<noteq> of_char CHR '','' then
             Done None (LogError ''Expected ')' or ',' in argument list'' s1)
           else bind (getNextToken strtod s1) (\<lambda>_ s2. ParseArgs strtod n Args1 s2))"
| "ParseBinOpRHS strtod 0 ExprPrec LHS s = OutOfFuel"
| "ParseBinOpRHS strtod (Suc n) ExprPrec LHS s =
     (case getTokPrecedence s of (TokPrec, s1) \<Rightarrow>
        if TokPrec < ExprPrec then Done (Some LHS) s1
        else
          let BinOp = CurTok s1 in
          bind (getNextToken strtod s1) (\<lambda>_ s2.
          bind (ParsePrimary strtod n s2) (\<lambda>RHS s3.
            case RHS of
              None \<Rightarrow> Done None s3
            | Some rhs \<Rightarrow>
                (case getTokPrecedence s3 of (NextPrec, s4) \<Rightarrow>
                   bind (if TokPrec < NextPrec then ParseBinOpRHS strtod n (TokPrec + 1) rhs s4
                         else Done (Some rhs) s4) (\<lambda>RHS1 s5.
                     case RHS1 of
                       None \<Rightarrow> Done None s5
                     | Some rhs1 \<Rightarrow>
                         ParseBinOpRHS strtod n ExprPrec
                           (BinaryExprAST (char_of BinOp) LHS rhs1) s5)))))"
| "ParseExpression strtod 0 s = OutOfFuel"
| "ParseExpression strtod (Suc n) s =
     bind (ParsePrimary strtod n s) (\<lambda>LHS s1.
       case LHS of
         None \<Rightarrow> Done None s1
       | Some lhs \<Rightarrow> ParseBinOpRHS strtod n 0 lhs s1)"

text \<open>
  \<open>ParsePrototypeArgs\<close> is the loop
  \<open>while(getNextToken() == tok_identifier) ArgNames.push_back(IdentifierStr);\<close>.
\<close>

fun ParsePrototypeArgs :: "(string \<Rightarrow> 'd) \<Rightarrow> nat \<Rightarrow> string list \<Rightarrow> 'd state \<Rightarrow> (string list, 'd state) result" where
  "ParsePrototypeArgs strtod 0 ArgNames s = OutOfFuel"
| "ParsePrototypeArgs strtod (Suc n) ArgNames s =
     bind (getNextToken strtod s) (\<lambda>tok s1.
       if tok = tok_identifier
       then ParsePrototypeArgs strtod n (ArgNames @ [IdentifierStr s1]) s1
       else Done ArgNames s1)"

definition ParsePrototype :: "(string \<Rightarrow> 'd) \<Rightarrow> nat \<Rightarrow> 'd state \<Rightarrow> (PrototypeAST option, 'd state) result" where
  "ParsePrototype strtod n s =
     (let FnType = CurTok s in
      bind (getNextToken strtod s) (\<lambda>_ s1.
        if CurTok s1 \<noteq> tok_identifier
        then Done None (LogError ''Expected function name in prototype'' s1)
        else
          let FnName = IdentifierStr s1;
              FnName1 = (if FnType = tok_def then FnName @ ''_def''
                         else if FnType = tok_extern then FnName @ ''_ext''
                         else FnName)
          in
          bind (getNextToken strtod s1) (\<lambda>_ s2.
            if CurTok s2 \<noteq> of_char CHR ''(''
            then Done None (LogError ''Expected '(' in protype'' s2)
            else
              bind (ParsePrototypeArgs strtod n [] s2) (\<lambda>ArgNames s3.
                if CurTok s3 \<noteq> of_char CHR '')''
                then Done None (LogError ''Expected ')' in prototype'' s3)
                else
                  bind (getNextToken strtod s3) (\<lambda>_ s4.
                    Done (Some (PrototypeAST FnName1 ArgNames)) s4)))))"

definition ParseDefinition :: "(string \<Rightarrow> 'd) \<Rightarrow> nat \<Rightarrow> 'd state \<Rightarrow> ('d FunctionAST option, 'd state) result" where
  "ParseDefinition strtod n s =
     bind (ParsePrototype strtod n s) (\<lambda>P s1.
       case P of
         None \<Rightarrow> Done None s1
       | Some p \<Rightarrow>
           bind (ParseExpression strtod n s1) (\<lambda>E s2.
             case E of
               Some e \<Rightarrow> Done (Some (FunctionAST p e)) s2
             | None \<Rightarrow> Done None s2))"

definition ParseExtern :: "(string \<Rightarrow> 'd) \<Rightarrow> nat \<Rightarrow> 'd state \<Rightarrow> (PrototypeAST option, 'd state) result" where
  "ParseExtern strtod n s = ParsePrototype strtod n s"

definition ParseTopLevelExpr :: "(string \<Rightarrow> 'd) \<Rightarrow> nat \<Rightarrow> 'd state \<Rightarrow> ('d FunctionAST option, 'd state) result" where
  "ParseTopLevelExpr strtod n s =
     bind (ParseExpression strtod n s) (\<lambda>E s1.
       case E of
         Some e \<Rightarrow> Done (Some (FunctionAST (PrototypeAST [] []) e)) s1
       | None \<Rightarrow> Done None s1)"

subsection \<open>The module and the builder\<close>

text \<open>
  Modelled from the spec: the calls of the IR-builder collaborator that the lowering
  makes. \<open>getFunction\<close> looks a name up in the module's symbol table, which holds named
  functions only. A pointer to a function is its address; at an address that holds no
  function (never the case for a pointer the program still uses) a read finds no
  blocks and no arguments, and a write changes nothing.
\<close>

definition getFunction :: "string \<Rightarrow> 'd Module \<Rightarrow> nat option" where
  "getFunction N M =
     (if N = [] then None
      else map_option fst (find (\<lambda>(F, f). fn_name f = N) (Functions M)))"

definition function_at :: "'d Module \<Rightarrow> nat \<Rightarrow> 'd Function option" where
  "function_at M F = map_of (Functions M) F"

definition arg_names :: "'d Module \<Rightarrow> nat \<Rightarrow> string list" where
  "arg_names M F = (case function_at M F of None \<Rightarrow> [] | Some f \<Rightarrow> fn_args f)"

definition blocks :: "'d Module \<Rightarrow> nat \<Rightarrow> 'd Value list list" where
  "blocks M F = (case function_at M F of None \<Rightarrow> [] | Some f \<Rightarrow> fn_blocks f)"

definition update_function :: "nat \<Rightarrow> ('d Function \<Rightarrow> 'd Function) \<Rightarrow> 'd Module \<Rightarrow> 'd Module" where
  "update_function F g M =
     M\<lparr>Functions := map (\<lambda>(F1, f). if F1 = F then (F1, g f) else (F1, f)) (Functions M)\<rparr>"

definition Function_Create :: "string \<Rightarrow> string list \<Rightarrow> 'd Module \<Rightarrow> nat \<times> 'd Module" where
  "Function_Create N ArgNames M =
     (NextAddr M,
      M\<lparr>Functions := Functions M @ [(NextAddr M, \<lparr>fn_name = N, fn_args = ArgNames, fn_blocks = []\<rparr>)],
        NextAddr := Suc (NextAddr M)\<rparr>)"

definition eraseFromParent :: "nat \<Rightarrow> 'd Module \<Rightarrow> 'd Module" where
  "eraseFromParent F M = M\<lparr>Functions := filter (\<lambda>(F1, f). F1 \<noteq> F) (Functions M)\<rparr>"

definition BasicBlock_Create :: "nat \<Rightarrow> 'd Module \<Rightarrow> nat \<times> 'd Module" where
  "BasicBlock_Create F M =
     (length (blocks M F), update_function F (\<lambda>f. f\<lparr>fn_blocks := fn_blocks f @ [[]]\<rparr>) M)"

definition insert_at :: "(nat \<times> nat) option \<Rightarrow> 'd Value \<Rightarrow> 'd Module \<Rightarrow> 'd Module" where
  "insert_at ip I M =
     (case ip of
        None \<Rightarrow> M
      | Some (F, BB) \<Rightarrow>
          update_function F
            (\<lambda>f. f\<lparr>fn_blocks := (fn_blocks f)[BB := fn_blocks f ! BB @ [I]]\<rparr>) M)"

text \<open>
  A \<open>Builder->Create...\<close> call: the folder may answer with an existing value; otherwise
  the instruction is appended at the insertion point and is its own result.
\<close>

definition Insert :: "('d Value \<Rightarrow> 'd Value option) \<Rightarrow> 'd Value \<Rightarrow> 'd state \<Rightarrow> 'd Value \<times> 'd state" where
  "Insert Folder I s =
     (case Folder I of
        Some V \<Rightarrow> (V, s)
      | None \<Rightarrow> (I, s\<lparr>TheModule := insert_at (Builder s) I (TheModule s)\<rparr>))"

text \<open>\<open>CreateCall\<close> and \<open>CreateRet\<close> always insert.\<close>

definition InsertRaw :: "'d Value \<Rightarrow> 'd state \<Rightarrow> 'd Value \<times> 'd state" where
  "InsertRaw I s = (I, s\<lparr>TheModule := insert_at (Builder s) I (TheModule s)\<rparr>)"

text \<open>
  \<open>verifyFunction\<close> answers true for a broken function: a block that does not end in
  its only terminator. A declaration (no blocks) is not broken.
\<close>

definition isTerminator :: "'d Value \<Rightarrow> bool" where
  "isTerminator I = (case I of Ret _ \<Rightarrow> True | _ \<Rightarrow> False)"

definition verifyFunction :: "'d Function \<Rightarrow> bool" where
  "verifyFunction f =
     (\<exists>b \<in> set (fn_blocks f). b = [] \<or> \<not> isTerminator (last b) \<or> (\<exists>I \<in> set (butlast b). isTerminator I))"

subsection \<open>Code generation\<close>

text \<open>
  \<open>NamedValues[Name]\<close> is \<open>std::map::operator[]\<close>: a name that is absent is inserted with
  a null pointer before it is read.
\<close>

fun codegen :: "('d Value \<Rightarrow> 'd Value option) \<Rightarrow> 'd ExprAST \<Rightarrow> 'd state \<Rightarrow> 'd Value option \<times> 'd state"
  and codegen_args :: "('d Value \<Rightarrow> 'd Value option) \<Rightarrow> 'd ExprAST list \<Rightarrow> 'd Value list \<Rightarrow> 'd state \<Rightarrow> 'd Value list option \<times> 'd state"
where
  "codegen Folder (NumberExprAST Val) s = (Some (ConstantFP Val), s)"
| "codegen Folder (VariableExprAST Name) s =
     (case NamedValues s Name of
        None \<Rightarrow> (None, LogError ''Unknown variable name'' (s\<lparr>NamedValues := (NamedValues s)(Name \<mapsto> None)\<rparr>))
      | Some None \<Rightarrow> (None, LogError ''Unknown variable name'' s)
      | Some (Some V) \<Rightarrow> (Some V, s))"
| "codegen Folder (BinaryExprAST Op LHS RHS) s =
     (case codegen Folder LHS s of (L, s1) \<Rightarrow>
       (case codegen Folder RHS s1 of (R, s2) \<Rightarrow>
         (case (L, R) of
            (Some l, Some r) \<Rightarrow>
              if Op = CHR ''+'' then apfst Some (Insert Folder (FAdd l r) s2)
              else if Op = CHR ''-'' then apfst Some (Insert Folder (FSub l r) s2)
              else if Op = CHR ''*'' then apfst Some (Insert Folder (FMul l r) s2)
              else if Op = CHR ''/'' then apfst Some (Insert Folder (FDiv l r) s2)
              else if Op = CHR ''<'' then
                (case Insert Folder (FCmpULT l r) s2 of (L1, s3) \<Rightarrow>
                   apfst Some (Insert Folder (UIToFP L1) s3))
              else (None, LogError ''invalid binary operator'' s2)
          | _ \<Rightarrow> (None, s2))))"
| "codegen Folder (CallExprAST Callee Args) s =
     (case getFunction Callee (TheModule s) of
        None \<Rightarrow> (None, LogError ''Unknown function referenced'' s)
      | Some CalleeF \<Rightarrow>
          if length (arg_names (TheModule s) CalleeF) \<noteq> length Args
          then (None, LogError ''Incorrect # arguments passed'' s)
          else
            (case codegen_args Folder Args [] s of
               (None, s1) \<Rightarrow> (None, s1)
             | (Some ArgsV, s1) \<Rightarrow> apfst Some (InsertRaw (Call CalleeF ArgsV) s1)))"
| "codegen_args Folder [] ArgsV s = (Some ArgsV, s)"
| "codegen_args Folder (Arg # Args) ArgsV s =
     (case codegen Folder Arg s of
        (None, s1) \<Rightarrow> (None, s1)
      | (Some V, s1) \<Rightarrow> codegen_args Folder Args (ArgsV @ [V]) s1)"

text \<open>
  \<open>PrototypeAST::codegen\<close>: \<open>Function::Create\<close> and the naming of the arguments.
\<close>

definition PrototypeAST_codegen :: "PrototypeAST \<Rightarrow> 'd state \<Rightarrow> nat \<times> 'd state" where
  "PrototypeAST_codegen P s =
     (case Function_Create (getName P) (getArgs P) (TheModule s) of
        (F, M) \<Rightarrow> (F, s\<lparr>TheModule := M\<rparr>))"

text \<open>
  \<open>NamedValues.clear(); for(auto &Arg : TheFunction->args()) NamedValues[Arg.getName()] = &Arg;\<close>
\<close>

definition bind_arguments :: "nat \<Rightarrow> 'd state \<Rightarrow> 'd state" where
  "bind_arguments TheFunction s =
     s\<lparr>NamedValues :=
         fold (\<lambda>(Idx, N) NV. NV(N \<mapsto> Some (Argument TheFunction Idx)))
           (enumerate 0 (arg_names (TheModule s) TheFunction)) Map.empty\<rparr>"

text \<open>
  \<open>FunctionAST::codegen\<close>. \<open>Proto->codegen()\<close> never returns a null pointer, so the test
  after it has no branch here; the answer of \<open>verifyFunction\<close> is discarded by the source
  and the call has no effect.
\<close>

definition FunctionAST_codegen :: "('d Value \<Rightarrow> 'd Value option) \<Rightarrow> 'd FunctionAST \<Rightarrow> 'd state \<Rightarrow> nat option \<times> 'd state" where
  "FunctionAST_codegen Folder FnAST s =
     (case (case getFunction (getName (Proto FnAST)) (TheModule s) of
              Some F \<Rightarrow> (F, s)
            | None \<Rightarrow> PrototypeAST_codegen (Proto FnAST) s) of
        (TheFunction, s1) \<Rightarrow>
          if blocks (TheModule s1) TheFunction \<noteq> []
          then (None, LogError ''Function cannot be redefined.'' s1)
          else
            (case BasicBlock_Create TheFunction (TheModule s1) of (BB, M) \<Rightarrow>
               let s2 = s1\<lparr>TheModule := M, Builder := Some (TheFunction, BB)\<rparr>;
                   s3 = bind_arguments TheFunction s2
               in (case codegen Folder (Body FnAST) s3 of
                     (Some RetVal, s4) \<Rightarrow> (Some TheFunction, snd (InsertRaw (Ret RetVal) s4))
                   | (None, s4) \<Rightarrow>
                       (None, s4\<lparr>TheModule := eraseFromParent TheFunction (TheModule s4)\<rparr>))))"

subsection \<open>Top-level driver\<close>

definition InitializeModule :: "'d state \<Rightarrow> 'd state" where
  "InitializeModule s = s\<lparr>TheModule := \<lparr>Functions = [], NextAddr = 0\<rparr>, Builder := None\<rparr>"

definition cout :: "string \<Rightarrow> 'd state \<Rightarrow> 'd state" where
  "cout Str s = s\<lparr>out := out s @ [Stdout Str]\<rparr>"

text \<open>\<open>FnIR->print(errs())\<close>\<close>

definition print_function :: "nat \<Rightarrow> 'd state \<Rightarrow> 'd state" where
  "print_function FnIR s =
     (case function_at (TheModule s) FnIR of
        None \<Rightarrow> s
      | Some f \<Rightarrow> s\<lparr>out := out s @ [PrintFunction f]\<rparr>)"

definition HandleDefinition :: "(string \<Rightarrow> 'd) \<Rightarrow> ('d Value \<Rightarrow> 'd Value option) \<Rightarrow> nat \<Rightarrow> 'd state \<Rightarrow> (unit, 'd state) result" where
  "HandleDefinition strtod Folder n s =
     bind (ParseDefinition strtod n s) (\<lambda>FnAST s1.
       case FnAST of
         Some fn \<Rightarrow>
           (case FunctionAST_codegen Folder fn s1 of
              (Some FnIR, s2) \<Rightarrow>
                Done () (cout [] (print_function FnIR (cout ''Parsed a function definition:'' s2)))
            | (None, s2) \<Rightarrow> Done () s2)
       | None \<Rightarrow> bind (getNextToken strtod s1) (\<lambda>_ s2. Done () s2))"

definition HandleExtern :: "(string \<Rightarrow> 'd) \<Rightarrow> nat \<Rightarrow> 'd state \<Rightarrow> (unit, 'd state) result" where
  "HandleExtern strtod n s =
     bind (ParseExtern strtod n s) (\<lambda>ProtoAST s1.
       case ProtoAST of
         Some p \<Rightarrow>
           (case PrototypeAST_codegen p s1 of
              (FnIR, s2) \<Rightarrow>
                Done () (cout [] (print_function FnIR (cout ''Parsed an extern:'' s2))))
       | None \<Rightarrow> bind (getNextToken strtod s1) (\<lambda>_ s2. Done () s2))"

definition HandleTopLevelExpression :: "(string \<Rightarrow> 'd) \<Rightarrow> ('d Value \<Rightarrow> 'd Value option) \<Rightarrow> nat \<Rightarrow> 'd state \<Rightarrow> (unit, 'd state) result" where
  "HandleTopLevelExpression strtod Folder n s =
     bind (ParseTopLevelExpr strtod n s) (\<lambda>FnAST s1.
       case FnAST of
         Some fn \<Rightarrow>
           (case FunctionAST_codegen Folder fn s1 of
              (Some FnIR, s2) \<Rightarrow>
                let s3 = cout [] (print_function FnIR (cout ''Parsed a top-level expression:'' s2))
                in Done () (s3\<lparr>TheModule := eraseFromParent FnIR (TheModule s3)\<rparr>)
            | (None, s2) \<Rightarrow> Done () s2)
       | None \<Rightarrow> bind (getNextToken strtod s1) (\<lambda>_ s2. Done () s2))"

fun MainLoop :: "(string \<Rightarrow> 'd) \<Rightarrow> ('d Value \<Rightarrow> 'd Value option) \<Rightarrow> nat \<Rightarrow> 'd state \<Rightarrow> (unit, 'd state) result" where
  "MainLoop strtod Folder 0 s = OutOfFuel"
| "MainLoop strtod Folder (Suc n) s =
     (if CurTok s = tok_eof then Done () s
      else if CurTok s = of_char CHR '';'' then
        bind (getNextToken strtod (cout ''ready> '' s)) (\<lambda>_ s1. MainLoop strtod Folder n s1)
      else if CurTok s = tok_def then
        bind (HandleDefinition strtod Folder n s) (\<lambda>_ s1. MainLoop strtod Folder n s1)
      else if CurTok s = tok_extern then
        bind (HandleExtern strtod n s) (\<lambda>_ s1. MainLoop strtod Folder n s1)
      else
        bind (HandleTopLevelExpression strtod Folder n s) (\<lambda>_ s1. MainLoop strtod Folder n s1))"

text \<open>
  The statics as the program starts on the input given. \<open>NumVal\<close> is zero-initialised,
  which is what \<open>strtod\<close> returns for the text \<open>0\<close>; the module and the builder are null
  pointers until \<open>InitializeModule\<close> and are never read before it.
\<close>

definition initial_state :: "(string \<Rightarrow> 'd) \<Rightarrow> string \<Rightarrow> 'd state" where
  "initial_state strtod input =
     \<lparr>stdin = input, out = [], LastChar = of_char CHR '' '', IdentifierStr = [],
      NumVal = strtod ''0'', CurTok = 0, BinopPrecedence = Map.empty,
      TheModule = \<lparr>Functions = [], NextAddr = 0\<rparr>, Builder = None, NamedValues = Map.empty\<rparr>"

text \<open>
  \<open>main\<close> up to the call of \<open>MainLoop\<close>: install the operators, prompt, prime the first
  token, make the module.
\<close>

definition install_operators :: "'d state \<Rightarrow> 'd state" where
  "install_operators s =
     s\<lparr>BinopPrecedence := (BinopPrecedence s)
         (CHR ''<'' \<mapsto> 10, CHR ''+'' \<mapsto> 20, CHR ''-'' \<mapsto> 20, CHR ''*'' \<mapsto> 40, CHR ''/'' \<mapsto> 40)\<rparr>"

definition startup :: "(string \<Rightarrow> 'd) \<Rightarrow> string \<Rightarrow> (unit, 'd state) result" where
  "startup strtod input =
     bind (getNextToken strtod (cout ''ready> '' (install_operators (initial_state strtod input))))
       (\<lambda>_ s1. Done () (InitializeModule s1))"

definition main :: "(string \<Rightarrow> 'd) \<Rightarrow> ('d Value \<Rightarrow> 'd Value option) \<Rightarrow> nat \<Rightarrow> string \<Rightarrow> (int, 'd state) result" where
  "main strtod Folder n input =
     bind (startup strtod input) (\<lambda>_ s.
     bind (MainLoop strtod Folder n s) (\<lambda>_ s1.
       Done 0 (s1\<lparr>out := out s1 @ [PrintModule (TheModule s1)]\<rparr>)))"

section \<open>Notions used in the properties\<close>

text \<open>
  \<open>post Q E r\<close>: if \<open>r\<close> is a return, the value and state satisfy \<open>Q\<close>; if it is an exit,
  the state satisfies \<open>E\<close>.
\<close>

definition post :: "('a \<Rightarrow> 's \<Rightarrow> bool) \<Rightarrow> ('s \<Rightarrow> bool) \<Rightarrow> ('a, 's) result \<Rightarrow> bool" where
  "post Q E r = (case r of Done a s \<Rightarrow> Q a s | Exited s \<Rightarrow> E s | OutOfFuel \<Rightarrow> True)"

text \<open>
  What the lexer may change: the input, the look-ahead and its two result slots. On a
  return nothing else changes; on the fatal exit the number's error is appended to the
  trace.
\<close>

definition lexer_step :: "'d state \<Rightarrow> 'd state \<Rightarrow> bool" where
  "lexer_step s s' =
     (out s' = out s \<and> CurTok s' = CurTok s \<and> BinopPrecedence s' = BinopPrecedence s \<and>
      TheModule s' = TheModule s \<and> Builder s' = Builder s \<and> NamedValues s' = NamedValues s)"

definition fatal_exit :: "'d state \<Rightarrow> 'd state \<Rightarrow> bool" where
  "fatal_exit s s' =
     (out s' = out s @ [NumberSyntaxError (NumVal s')] \<and> CurTok s' = CurTok s \<and>
      BinopPrecedence s' = BinopPrecedence s \<and> TheModule s' = TheModule s \<and>
      Builder s' = Builder s \<and> NamedValues s' = NamedValues s)"

definition insert_blocks :: "(nat \<times> nat) option \<Rightarrow> 'd Value list \<Rightarrow> 'd Module \<Rightarrow> 'd Module" where
  "insert_blocks ip Is M =
     (case ip of
        None \<Rightarrow> M
      | Some (F, BB) \<Rightarrow>
          update_function F
            (\<lambda>f. f\<lparr>fn_blocks := (fn_blocks f)[BB := fn_blocks f ! BB @ Is]\<rparr>) M)"

definition null_extends :: "(string \<rightharpoonup> 'v option) \<Rightarrow> (string \<rightharpoonup> 'v option) \<Rightarrow> bool" where
  "null_extends NV NV' = (\<forall>k. NV' k = NV k \<or> (NV k = None \<and> NV' k = Some None))"

definition codegen_effect :: "'d state \<Rightarrow> 'd state \<Rightarrow> bool" where
  "codegen_effect s s' =
     (stdin s' = stdin s \<and> LastChar s' = LastChar s \<and> IdentifierStr s' = IdentifierStr s \<and>
      NumVal s' = NumVal s \<and> CurTok s' = CurTok s \<and> BinopPrecedence s' = BinopPrecedence s \<and>
      Builder s' = Builder s \<and>
      (\<exists>Is. (\<forall>I \<in> set Is. \<not> isTerminator I) \<and>
            TheModule s' = insert_blocks (Builder s) Is (TheModule s)) \<and>
      null_extends (NamedValues s) (NamedValues s') \<and>
      (\<exists>es. out s' = out s @ es))"

text \<open>The names that the symbol table binds to a value (not to a null pointer).\<close>

definition live_names :: "(string \<rightharpoonup> 'v option) \<Rightarrow> string set" where
  "live_names NV = {k. \<exists>V. NV k = Some (Some V)}"

text \<open>
  A precedence table that has kept every entry of an earlier one and gained at most
  entries with the value 0.
\<close>

definition table_extends :: "(char \<rightharpoonup> int) \<Rightarrow> (char \<rightharpoonup> int) \<Rightarrow> bool" where
  "table_extends T T' = (\<forall>c. T' c = T c \<or> (T c = None \<and> T' c = Some 0))"

text \<open>
  The text of the numeric literal that starts at the look-ahead character: the longest
  run of digits and decimal points.
\<close>

definition number_text :: "'d state \<Rightarrow> string" where
  "number_text s =
     takeWhile (\<lambda>c. isdigit (of_char c) \<or> c = CHR ''.'') (char_of (LastChar s) # stdin s)"

definition fatal_reported :: "'d state \<Rightarrow> bool" where
  "fatal_reported s = (\<exists>v. out s \<noteq> [] \<and> last (out s) = NumberSyntaxError v)"

text \<open>
  A module whose functions have distinct addresses, all below the next address to be
  given out.
\<close>

definition wf_module :: "'d Module \<Rightarrow> bool" where
  "wf_module M =
     (distinct (map fst (Functions M)) \<and> (\<forall>F \<in> fst ` set (Functions M). F < NextAddr M))"

text \<open>
  A module as the driver keeps it between top-level constructs: well-formed, every
  function named by a definition or an extern, no function broken, and a body missing
  only from extern declarations.
\<close>

definition sound_module :: "'d Module \<Rightarrow> bool" where
  "sound_module M =
     (wf_module M \<and>
      (\<forall>(F, f) \<in> set (Functions M).
         \<not> verifyFunction f \<and>
         (\<exists>b. fn_name f = b @ ''_def'' \<or> fn_name f = b @ ''_ext'') \<and>
         (fn_blocks f = [] \<longrightarrow> (\<exists>b. fn_name f = b @ ''_ext''))))"

text \<open>
  How much the lexer and the parser have still to consume: the unread characters, the
  look-ahead character unless it is \<open>EOF\<close>, and the current token unless it is \<open>tok_eof\<close>.
\<close>

definition unread :: "'d state \<Rightarrow> nat" where
  "unread s = length (stdin s) + (if LastChar s = EOF then 0 else 1)"

definition pending :: "'d state \<Rightarrow> nat" where
  "pending s = unread s + (if CurTok s = tok_eof then 0 else 1)"

text \<open>\<open>returns Q r\<close>: \<open>r\<close> is an exit, or a return whose value and state satisfy \<open>Q\<close>.\<close>

definition returns :: "('a \<Rightarrow> 's \<Rightarrow> bool) \<Rightarrow> ('a, 's) result \<Rightarrow> bool" where
  "returns Q r = (case r of Done a s \<Rightarrow> Q a s | Exited s \<Rightarrow> True | OutOfFuel \<Rightarrow> False)"

text \<open>
  \<open>advance s r s'\<close>: from \<open>s\<close> to \<open>s'\<close> a parser has consumed something, or it has failed
  (\<open>r\<close> is the null pointer) on the token it was given, which is still the current one.
\<close>

definition advance :: "'d state \<Rightarrow> 'a option \<Rightarrow> 'd state \<Rightarrow> bool" where
  "advance s r s' =
     (pending s' \<le> pending s \<and> (pending s' < pending s \<or> (r = None \<and> CurTok s' = CurTok s)))"

text \<open>\<open>settled r r'\<close>: \<open>r'\<close> is the answer \<open>r\<close>, unless \<open>r\<close> ran out of budget.\<close>

definition settled :: "('a, 's) result \<Rightarrow> ('a, 's) result \<Rightarrow> bool" where
  "settled r r' = (r = OutOfFuel \<or> r' = r)"

text \<open>The precedence that \<open>main\<close> installs for a character, 0 where it installs none.\<close>

definition installed :: "char \<Rightarrow> int" where
  "installed c =
     (case BinopPrecedence (install_operators (initial_state (\<lambda>_. ()) [])) c of
        None \<Rightarrow> 0
      | Some p \<Rightarrow> p)"

text \<open>
  A name as the lexer reads it has no underscore; a name that \<open>ParsePrototype\<close> gives a
  function has one. \<open>plain_calls\<close>: the callees of an expression are names of the first
  kind. \<open>mangled_module\<close>: the functions of a module have names of the second kind, or no
  name.
\<close>

definition unmangled :: "string \<Rightarrow> bool" where
  "unmangled N = (CHR ''_'' \<notin> set N)"

fun plain_calls :: "'d ExprAST \<Rightarrow> bool" where
  "plain_calls (NumberExprAST Val) = True"
| "plain_calls (VariableExprAST Name) = True"
| "plain_calls (BinaryExprAST Op LHS RHS) = (plain_calls LHS \<and> plain_calls RHS)"
| "plain_calls (CallExprAST Callee Args) = (unmangled Callee \<and> (\<forall>a \<in> set Args. plain_calls a))"

definition mangled_module :: "'d Module \<Rightarrow> bool" where
  "mangled_module M = (\<forall>(F, f) \<in> set (Functions M). fn_name f = [] \<or> \<not> unmangled (fn_name f))"

text \<open>What a run has written, whether it returned or left through \<open>exit\<close>.\<close>

definition trace :: "('a, 'd state) result \<Rightarrow> 'd event list" where
  "trace r = (case r of Done a s \<Rightarrow> out s | Exited s \<Rightarrow> out s | OutOfFuel \<Rightarrow> [])"

definition no_arity_error :: "'d state \<Rightarrow> bool" where
  "no_arity_error s = (Stdout ''Error: Incorrect # arguments passed'' \<notin> set (out s))"

definition calls_fail :: "'d state \<Rightarrow> bool" where
  "calls_fail s =
     (no_arity_error s \<and> mangled_module (TheModule s) \<and> unmangled (IdentifierStr s))"

text \<open>
  \<open>parsed P r s\<close>: the state \<open>s\<close> after a parser satisfies \<open>calls_fail\<close>, and what the
  parser returned, unless it is the null pointer, satisfies \<open>P\<close>.
\<close>

definition parsed :: "('a \<Rightarrow> bool) \<Rightarrow> 'a option \<Rightarrow> 'd state \<Rightarrow> bool" where
  "parsed P r s = (calls_fail s \<and> (case r of None \<Rightarrow> True | Some a \<Rightarrow> P a))"

text \<open>
  \<open>looked_up s\<close>: the current token, when it is an ASCII character, has an entry in the
  precedence table.
\<close>

definition looked_up :: "'d state \<Rightarrow> bool" where
  "looked_up s = (isascii (CurTok s) \<longrightarrow> BinopPrecedence s (char_of (CurTok s)) \<noteq> None)"

text \<open>\<open>entry_after r s\<close>: unless \<open>r\<close> is the null pointer, \<open>looked_up s\<close>.\<close>

definition entry_after :: "'a option \<Rightarrow> 'd state \<Rightarrow> bool" where
  "entry_after r s = (r \<noteq> None \<longrightarrow> looked_up s)"

text \<open>
  \<open>parse_effect s r s'\<close>: what a parser that started in \<open>s\<close> and returned \<open>r\<close> in \<open>s'\<close> has
  done besides reading input: it has written one error line if \<open>r\<close> is the null
  pointer and nothing otherwise, it has left the module, the builder and the symbol
  table alone, and it has added at most zero entries to the precedence table.
\<close>

definition parse_effect :: "'d state \<Rightarrow> 'a option \<Rightarrow> 'd state \<Rightarrow> bool" where
  "parse_effect s r s' =
     (TheModule s' = TheModule s \<and> Builder s' = Builder s \<and> NamedValues s' = NamedValues s \<and>
      table_extends (BinopPrecedence s) (BinopPrecedence s') \<and>
      (case r of
         None \<Rightarrow> \<exists>m. out s' = out s @ [Stdout (''Error: '' @ m)]
       | Some a \<Rightarrow> out s' = out s))"

text \<open>
  Two runs that go the same way. \<open>same_output p p' o1 o2\<close>: the traces \<open>o1\<close> and \<open>o2\<close>
  are the same lines written after \<open>p\<close> and after \<open>p'\<close>. \<open>same_answers T T'\<close>: the precedence
  tables \<open>T\<close> and \<open>T'\<close> differ at most in entries with the value 0, which the lookup
  treats like no entry. \<open>same_input p p' s s'\<close>: the states \<open>s\<close> and \<open>s'\<close> have the same
  unread input and look-ahead (the end of the input or a character), the same module,
  builder and symbol table, and such tables and traces. \<open>same_token p p' r r'\<close>: the
  lexer has answered the same in both, with the same identifier or number if that is
  what the token is. \<open>resumed p p' s s'\<close>: moreover the states have the same current
  token, and the same identifier or number if that is what the token is.
  \<open>resumed_result p p' r r'\<close>: the results \<open>r\<close> and \<open>r'\<close> are the same return with the same
  value and such states, or the same fatal exit with such traces, or both have run out
  of budget.
\<close>

definition same_output :: "'e list \<Rightarrow> 'e list \<Rightarrow> 'e list \<Rightarrow> 'e list \<Rightarrow> bool" where
  "same_output p p' o1 o2 = (\<exists>es. o1 = p @ es \<and> o2 = p' @ es)"

definition same_answers :: "(char \<rightharpoonup> int) \<Rightarrow> (char \<rightharpoonup> int) \<Rightarrow> bool" where
  "same_answers T T' =
     (\<forall>c. (case T c of None \<Rightarrow> 0 | Some q \<Rightarrow> q) = (case T' c of None \<Rightarrow> 0 | Some q \<Rightarrow> q))"

definition same_input :: "'d event list \<Rightarrow> 'd event list \<Rightarrow> 'd state \<Rightarrow> 'd state \<Rightarrow> bool" where
  "same_input p p' s s' =
     (stdin s' = stdin s \<and> LastChar s' = LastChar s \<and> EOF \<le> LastChar s \<and>
      TheModule s' = TheModule s \<and>
      Builder s' = Builder s \<and> NamedValues s' = NamedValues s \<and>
      same_answers (BinopPrecedence s) (BinopPrecedence s') \<and>
      same_output p p' (out s) (out s'))"

definition same_token ::
  "'d event list \<Rightarrow> 'd event list \<Rightarrow> (int, 'd state) result \<Rightarrow> (int, 'd state) result \<Rightarrow> bool" where
  "same_token p p' r r' =
     (case r of
        Done t s \<Rightarrow>
          (\<exists>s'. r' = Done t s' \<and> same_input p p' s s' \<and>
             (t = tok_identifier \<longrightarrow> IdentifierStr s' = IdentifierStr s) \<and>
             (t = tok_number \<longrightarrow> NumVal s' = NumVal s))
      | Exited s \<Rightarrow> (\<exists>s'. r' = Exited s' \<and> same_output p p' (out s) (out s'))
      | OutOfFuel \<Rightarrow> r' = OutOfFuel)"

definition resumed :: "'d event list \<Rightarrow> 'd event list \<Rightarrow> 'd state \<Rightarrow> 'd state \<Rightarrow> bool" where
  "resumed p p' s s' =
     (same_input p p' s s' \<and> CurTok s' = CurTok s \<and>
      (CurTok s = tok_identifier \<longrightarrow> IdentifierStr s' = IdentifierStr s) \<and>
      (CurTok s = tok_number \<longrightarrow> NumVal s' = NumVal s))"

definition resumed_result ::
  "'d event list \<Rightarrow> 'd event list \<Rightarrow> ('a, 'd state) result \<Rightarrow> ('a, 'd state) result \<Rightarrow> bool" where
  "resumed_result p p' r r' =
     (case r of
        Done a s \<Rightarrow> (\<exists>s'. r' = Done a s' \<and> resumed p p' s s')
      | Exited s \<Rightarrow> (\<exists>s'. r' = Exited s' \<and> same_output p p' (out s) (out s'))
      | OutOfFuel \<Rightarrow> r' = OutOfFuel)"

text \<open>
  \<open>same_lowering p p' r r'\<close>: a lowering has answered the same in both runs.
\<close>

definition same_lowering ::
  "'d event list \<Rightarrow> 'd event list \<Rightarrow> 'a \<times> 'd state \<Rightarrow> 'a \<times> 'd state \<Rightarrow> bool" where
  "same_lowering p p' r r' = (fst r' = fst r \<and> resumed p p' (snd r) (snd r'))"

text \<open>
  \<open>parse_fails strtod n s s1\<close>: at \<open>s\<close> the main loop dispatches to a parser, which fails
  and leaves the state \<open>s1\<close>.
\<close>

definition parse_fails :: "(string \<Rightarrow> 'd) \<Rightarrow> nat \<Rightarrow> 'd state \<Rightarrow> 'd state \<Rightarrow> bool" where
  "parse_fails strtod n s s1 =
     (CurTok s \<noteq> tok_eof \<and> CurTok s \<noteq> of_char CHR '';'' \<and>
      (if CurTok s = tok_def then ParseDefinition strtod n s = Done None s1
       else if CurTok s = tok_extern then ParseExtern strtod n s = Done None s1
       else ParseTopLevelExpr strtod n s = Done None s1))"

section \<open>Properties\<close>

subsection \<open>Evaluation rules\<close>

lemma bind_simps [simp]:
  "bind (Done a s) f = f a s"
  "bind (Exited s) f = Exited s"
  "bind OutOfFuel f = OutOfFuel"
  by (simp_all add: bind_def)

lemmas lexer_eval =
  skip_whitespace.simps read_identifier.simps read_number.simps skip_comment.simps gettok.simps
  getchar_def isspace_def isdigit_def isalpha_def isalnum_def isascii_def Let_def char_of_def

lemmas parser_eval =
  getNextToken_def ParseNumberExpr_def getTokPrecedence_def LogError_def
  ParsePrototype_def ParseDefinition_def ParseExtern_def ParseTopLevelExpr_def

lemmas driver_eval =
  startup_def initial_state_def install_operators_def InitializeModule_def cout_def

lemmas codegen_eval =
  getFunction_def function_at_def arg_names_def blocks_def update_function_def
  Function_Create_def eraseFromParent_def BasicBlock_Create_def insert_at_def Insert_def
  InsertRaw_def PrototypeAST_codegen_def bind_arguments_def FunctionAST_codegen_def
  print_function_def HandleDefinition_def HandleExtern_def HandleTopLevelExpression_def
  main_def

subsection \<open>Results and the lexer\<close>

lemma post_simps [simp]:
  "post Q E (Done a s) = Q a s"
  "post Q E (Exited s) = E s"
  "post Q E OutOfFuel = True"
  by (simp_all add: post_def)

lemma post_bind:
  assumes "post Q1 E m" and "\<And>a s. Q1 a s \<Longrightarrow> post Q E (f a s)"
  shows "post Q E (bind m f)"
  using assms by (cases m) simp_all

lemma post_mono:
  assumes "post Q1 E1 r" and "\<And>a s. Q1 a s \<Longrightarrow> Q a s" and "\<And>s. E1 s \<Longrightarrow> E s"
  shows "post Q E r"
  using assms by (cases r) simp_all

lemma lexer_step_refl [simp]: "lexer_step s s"
  by (simp add: lexer_step_def)

lemma lexer_step_trans: "lexer_step s s1 \<Longrightarrow> lexer_step s1 s2 \<Longrightarrow> lexer_step s s2"
  by (simp add: lexer_step_def)

lemma lexer_step_getchar: "lexer_step s (getchar s)"
  by (simp add: lexer_step_def getchar_def split: list.splits)

lemmas lexer_step_after_getchar = lexer_step_trans [OF lexer_step_getchar]

lemma lexer_step_skip_whitespace: "lexer_step s (skip_whitespace s)"
proof (induction s rule: skip_whitespace.induct)
  case (1 s)
  show ?case
  proof (cases "isspace (LastChar s)")
    case True
    with 1 have "lexer_step (getchar s) (skip_whitespace s)"
      by (subst skip_whitespace.simps) simp
    then show ?thesis by (rule lexer_step_after_getchar)
  next
    case False
    then show ?thesis by (subst skip_whitespace.simps) simp
  qed
qed

lemma lexer_step_skip_comment: "lexer_step s (skip_comment s)"
proof (induction s rule: skip_comment.induct)
  case (1 s)
  show ?case
    using 1
    by (subst skip_comment.simps)
       (auto simp: Let_def lexer_step_getchar intro: lexer_step_after_getchar)
qed

lemma lexer_step_read_identifier: "lexer_step s (read_identifier s)"
proof (induction s rule: read_identifier.induct)
  case (1 s)
  have "lexer_step s (getchar s\<lparr>IdentifierStr := x\<rparr>)" for x
    using lexer_step_getchar [of s] by (simp add: lexer_step_def)
  with 1 show ?case
    by (subst read_identifier.simps)
       (auto simp: Let_def lexer_step_getchar intro: lexer_step_trans)
qed

lemma lexer_step_read_number:
  "lexer_step s (snd (read_number NumStr hasDecimal decimalError s))"
proof (induction NumStr hasDecimal decimalError s rule: read_number.induct)
  case (1 NumStr hasDecimal decimalError s)
  then show ?case
    by (subst read_number.simps)
       (auto simp: Let_def lexer_step_getchar intro: lexer_step_after_getchar)
qed

lemma gettok_post: "post (\<lambda>_. lexer_step s) (fatal_exit s) (gettok strtod s)"
proof (induction strtod s rule: gettok.induct)
  case (1 strtod s0)
  let ?s = "skip_whitespace s0"
  have ws: "lexer_step s0 ?s" by (rule lexer_step_skip_whitespace)
  have id: "lexer_step s0 (read_identifier (?s\<lparr>IdentifierStr := x\<rparr>))" for x
    using ws lexer_step_read_identifier [of "?s\<lparr>IdentifierStr := x\<rparr>"]
    by (simp add: lexer_step_def)
  have num: "lexer_step s0 (snd (read_number [] False False ?s))"
    using ws lexer_step_read_number by (rule lexer_step_trans)
  have cm: "lexer_step s0 (skip_comment ?s)"
    using ws lexer_step_skip_comment by (rule lexer_step_trans)
  have gc: "lexer_step s0 (getchar s1)" if "lexer_step s0 s1" for s1
    using that lexer_step_getchar by (rule lexer_step_trans)
  consider (ident) "isalpha (LastChar ?s)"
    | (number) "\<not> isalpha (LastChar ?s)" "isdigit (LastChar ?s) \<or> LastChar ?s = of_char CHR ''.''"
    | (comment) "\<not> isalpha (LastChar ?s)" "\<not> (isdigit (LastChar ?s) \<or> LastChar ?s = of_char CHR ''.'')"
        "LastChar ?s = of_char CHR ''#'' \<and> LastChar (skip_comment ?s) \<noteq> EOF"
    | (other) "\<not> isalpha (LastChar ?s)" "\<not> (isdigit (LastChar ?s) \<or> LastChar ?s = of_char CHR ''.'')"
        "\<not> (LastChar ?s = of_char CHR ''#'' \<and> LastChar (skip_comment ?s) \<noteq> EOF)"
    by blast
  then show ?case
  proof cases
    case ident
    then have "gettok strtod s0 =
        (let s1 = read_identifier (?s\<lparr>IdentifierStr := [char_of (LastChar ?s)]\<rparr>) in
         if IdentifierStr s1 = ''def'' then Done tok_def s1
         else if IdentifierStr s1 = ''extern'' then Done tok_extern s1
         else Done tok_identifier s1)"
      by (subst gettok.simps) (simp only: Let_def if_True)
    then show ?thesis using id by (simp add: Let_def)
  next
    case number
    then have "gettok strtod s0 =
        (case read_number [] False False ?s of
           ((NumStr, hasDecimal, decimalError), s1) \<Rightarrow>
             let s2 = s1\<lparr>NumVal := strtod NumStr\<rparr> in
             if decimalError
             then Exited (s2\<lparr>out := out s2 @ [NumberSyntaxError (NumVal s2)]\<rparr>)
             else Done tok_number s2)"
      by (subst gettok.simps) (simp only: Let_def if_True if_False)
    then show ?thesis using num
      by (auto simp: Let_def lexer_step_def fatal_exit_def split: prod.splits)
  next
    case comment
    then have eq: "gettok strtod s0 = gettok strtod (skip_comment ?s)"
      by (subst gettok.simps) (simp add: Let_def)
    have "post (\<lambda>_. lexer_step (skip_comment ?s)) (fatal_exit (skip_comment ?s))
            (gettok strtod (skip_comment ?s))"
      using comment by (intro 1) auto
    then show ?thesis
      unfolding eq
      by (rule post_mono) (use cm in \<open>auto simp: lexer_step_def fatal_exit_def\<close>)
  next
    case other
    then have "gettok strtod s0 =
        (let s1 = (if LastChar ?s = of_char CHR ''#'' then skip_comment ?s else ?s) in
         if LastChar s1 = EOF then Done tok_eof s1
         else Done (LastChar s1) (getchar s1))"
      by (subst gettok.simps) (auto simp: Let_def)
    then show ?thesis using cm ws gc
      by (auto simp: Let_def)
  qed
qed

lemma bind_assoc: "bind (bind m f) g = bind m (\<lambda>a s. bind (f a s) g)"
  by (cases m) simp_all

subsection \<open>Invariants of the parser\<close>

lemma post_bindI:
  assumes "post (\<lambda>_. I) E m" and "\<And>a s. I s \<Longrightarrow> post Q E (f a s)"
  shows "post Q E (bind m f)"
  using assms by (rule post_bind)

lemma getNextToken_invariant:
  assumes tok: "\<And>s t s'. I s \<Longrightarrow> gettok strtod s = Done t s' \<Longrightarrow> I (s'\<lparr>CurTok := t\<rparr>)"
      and ex: "\<And>s s'. I s \<Longrightarrow> gettok strtod s = Exited s' \<Longrightarrow> E s'"
      and "I s"
  shows "post (\<lambda>_. I) E (getNextToken strtod s)"
  using assms by (cases "gettok strtod s") (auto simp: getNextToken_def)

lemma expression_invariant:
  assumes tok: "\<And>s. I s \<Longrightarrow> post (\<lambda>_. I) E (getNextToken strtod s)"
      and log: "\<And>s m. I s \<Longrightarrow> I (LogError m s)"
      and prec: "\<And>s. I s \<Longrightarrow> I (snd (getTokPrecedence s))"
  shows "(\<forall>s. I s \<longrightarrow> post (\<lambda>_. I) E (ParsePrimary strtod n s)) \<and>
         (\<forall>s. I s \<longrightarrow> post (\<lambda>_. I) E (ParseParenExpr strtod n s)) \<and>
         (\<forall>s. I s \<longrightarrow> post (\<lambda>_. I) E (ParseIdentifierExpr strtod n s)) \<and>
         (\<forall>s Args. I s \<longrightarrow> post (\<lambda>_. I) E (ParseArgs strtod n Args s)) \<and>
         (\<forall>s p l. I s \<longrightarrow> post (\<lambda>_. I) E (ParseBinOpRHS strtod n p l s)) \<and>
         (\<forall>s. I s \<longrightarrow> post (\<lambda>_. I) E (ParseExpression strtod n s))"
proof (induction n)
  case 0
  show ?case by simp
next
  case (Suc n)
  then have ih:
    "\<And>s. I s \<Longrightarrow> post (\<lambda>_. I) E (ParsePrimary strtod n s)"
    "\<And>s. I s \<Longrightarrow> post (\<lambda>_. I) E (ParseParenExpr strtod n s)"
    "\<And>s. I s \<Longrightarrow> post (\<lambda>_. I) E (ParseIdentifierExpr strtod n s)"
    "\<And>s Args. I s \<Longrightarrow> post (\<lambda>_. I) E (ParseArgs strtod n Args s)"
    "\<And>s p l. I s \<Longrightarrow> post (\<lambda>_. I) E (ParseBinOpRHS strtod n p l s)"
    "\<And>s. I s \<Longrightarrow> post (\<lambda>_. I) E (ParseExpression strtod n s)"
    by blast+
  have num: "post (\<lambda>_. I) E (ParseNumberExpr strtod s)" if "I s" for s
    unfolding ParseNumberExpr_def Let_def
    by (rule post_bindI [OF tok [OF that]]) simp
  note rules = post_bindI [where I = I] tok log prec ih num
  have primary: "post (\<lambda>_. I) E (ParsePrimary strtod (Suc n) s)" if "I s" for s
    using that by (auto intro!: rules)
  have paren: "post (\<lambda>_. I) E (ParseParenExpr strtod (Suc n) s)" if "I s" for s
    using that by (auto intro!: rules split: option.splits)
  have ident: "post (\<lambda>_. I) E (ParseIdentifierExpr strtod (Suc n) s)" if "I s" for s
    using that by (auto simp: Let_def intro!: rules split: option.splits)
  have args: "post (\<lambda>_. I) E (ParseArgs strtod (Suc n) Args s)" if "I s" for s Args
    using that by (auto simp: Let_def intro!: rules split: option.splits)
  have binop: "post (\<lambda>_. I) E (ParseBinOpRHS strtod (Suc n) p l s)" if "I s" for s p l
    using that by (auto simp: Let_def case_prod_beta intro!: rules split: option.splits)
  have expr: "post (\<lambda>_. I) E (ParseExpression strtod (Suc n) s)" if "I s" for s
    using that by (auto simp: Let_def intro!: rules split: option.splits)
  from primary paren ident args binop expr show ?case by blast
qed

subsection \<open>Invariants of the driver\<close>

lemma prototype_args_invariant:
  assumes tok: "\<And>s. I s \<Longrightarrow> post (\<lambda>_. I) E (getNextToken strtod s)"
  shows "I s \<Longrightarrow> post (\<lambda>_. I) E (ParsePrototypeArgs strtod n ArgNames s)"
proof (induction n arbitrary: s ArgNames)
  case 0
  show ?case by simp
next
  case (Suc n)
  show ?case
    using Suc.prems
    by (auto intro!: post_bindI [where I = I] tok Suc.IH)
qed

lemma prototype_invariant:
  assumes tok: "\<And>s. I s \<Longrightarrow> post (\<lambda>_. I) E (getNextToken strtod s)"
      and log: "\<And>s m. I s \<Longrightarrow> I (LogError m s)"
      and "I s"
  shows "post (\<lambda>r s'. I s' \<and>
            (\<forall>p. r = Some p \<longrightarrow>
               (CurTok s = tok_def \<longrightarrow> (\<exists>b. getName p = b @ ''_def'')) \<and>
               (CurTok s = tok_extern \<longrightarrow> (\<exists>b. getName p = b @ ''_ext''))))
          E (ParsePrototype strtod n s)"
  unfolding ParsePrototype_def Let_def
  using \<open>I s\<close>
  by (auto intro!: post_bindI [where I = I] tok log prototype_args_invariant)

lemma definition_invariant:
  assumes tok: "\<And>s. I s \<Longrightarrow> post (\<lambda>_. I) E (getNextToken strtod s)"
      and log: "\<And>s m. I s \<Longrightarrow> I (LogError m s)"
      and prec: "\<And>s. I s \<Longrightarrow> I (snd (getTokPrecedence s))"
      and "I s"
  shows "post (\<lambda>r s'. I s' \<and>
            (\<forall>fn. r = Some fn \<longrightarrow> CurTok s = tok_def \<longrightarrow> (\<exists>b. getName (Proto fn) = b @ ''_def'')))
          E (ParseDefinition strtod n s)"
proof -
  note expr = expression_invariant [OF tok log prec, of n, THEN conjunct2, THEN conjunct2,
      THEN conjunct2, THEN conjunct2, THEN conjunct2, rule_format]
  show ?thesis
    unfolding ParseDefinition_def
    by (rule post_bind [OF prototype_invariant [OF tok log \<open>I s\<close>]])
       (auto split: option.splits intro!: post_bindI [where I = I] expr)
qed

lemma extern_invariant:
  assumes tok: "\<And>s. I s \<Longrightarrow> post (\<lambda>_. I) E (getNextToken strtod s)"
      and log: "\<And>s m. I s \<Longrightarrow> I (LogError m s)"
      and "I s"
  shows "post (\<lambda>r s'. I s' \<and>
            (\<forall>p. r = Some p \<longrightarrow> CurTok s = tok_extern \<longrightarrow> (\<exists>b. getName p = b @ ''_ext'')))
          E (ParseExtern strtod n s)"
  unfolding ParseExtern_def
  by (rule post_mono [OF prototype_invariant [OF tok log \<open>I s\<close>]]) auto

lemma toplevel_invariant:
  assumes tok: "\<And>s. I s \<Longrightarrow> post (\<lambda>_. I) E (getNextToken strtod s)"
      and log: "\<And>s m. I s \<Longrightarrow> I (LogError m s)"
      and prec: "\<And>s. I s \<Longrightarrow> I (snd (getTokPrecedence s))"
      and "I s"
  shows "post (\<lambda>r s'. I s' \<and> (\<forall>fn. r = Some fn \<longrightarrow> Proto fn = PrototypeAST [] []))
          E (ParseTopLevelExpr strtod n s)"
proof -
  note expr = expression_invariant [OF tok log prec, of n, THEN conjunct2, THEN conjunct2,
      THEN conjunct2, THEN conjunct2, THEN conjunct2, rule_format]
  show ?thesis
    unfolding ParseTopLevelExpr_def
    using \<open>I s\<close>
    by (auto split: option.splits intro!: post_bindI [where I = I] expr)
qed

lemma HandleDefinition_invariant:
  fixes strtod :: "string \<Rightarrow> 'd" and I :: "'d state \<Rightarrow> bool"
  assumes tok: "\<And>s. I s \<Longrightarrow> post (\<lambda>_. I) E (getNextToken strtod s)"
      and out: "\<And>s es. I s \<Longrightarrow> I (s\<lparr>out := es\<rparr>)"
      and prec: "\<And>s. I s \<Longrightarrow> I (snd (getTokPrecedence s))"
      and "def": "\<And>s fn b. I s \<Longrightarrow> getName (Proto fn) = b @ ''_def'' \<Longrightarrow>
                  I (snd (FunctionAST_codegen Folder fn s))"
      and "I s" and d: "CurTok s = tok_def"
  shows "post (\<lambda>_. I) E (HandleDefinition strtod Folder n s)"
proof -
  have log: "I (LogError m s)" if "I s" for s m
    unfolding LogError_def using that by (rule out)
  have pr: "I (cout a (print_function F (cout b s)))" if "I s" for s a b F
    using out [OF that]
    by (auto simp: cout_def print_function_def function_at_def split: option.splits)
  have skip: "post (\<lambda>_. I) E (bind (getNextToken strtod s1) (\<lambda>_ s2. Done () s2))"
    if "I s1" for s1
    by (rule post_bindI [OF tok [OF that]]) simp
  show ?thesis
    unfolding HandleDefinition_def
  proof (rule post_bind [OF definition_invariant [OF tok log prec \<open>I s\<close>]])
    fix r :: "'d FunctionAST option" and s1
    assume q: "I s1 \<and>
      (\<forall>fn. r = Some fn \<longrightarrow> CurTok s = tok_def \<longrightarrow> (\<exists>b. getName (Proto fn) = b @ ''_def''))"
    show "post (\<lambda>_. I) E
           (case r of
              None \<Rightarrow> bind (getNextToken strtod s1) (\<lambda>_ s2. Done () s2)
            | Some fn \<Rightarrow>
                (case FunctionAST_codegen Folder fn s1 of
                   (None, s2) \<Rightarrow> Done () s2
                 | (Some FnIR, s2) \<Rightarrow>
                     Done () (cout [] (print_function FnIR (cout ''Parsed a function definition:'' s2)))))"
    proof (cases r)
      case None
      with q skip show ?thesis by simp
    next
      case (Some fn)
      with q d obtain b where b: "getName (Proto fn) = b @ ''_def''" by blast
      obtain x s2 where c: "FunctionAST_codegen Folder fn s1 = (x, s2)" by force
      have "I s2" using "def" [OF conjunct1 [OF q] b] c by simp
      with Some c show ?thesis by (cases x) (simp_all add: pr)
    qed
  qed
qed

lemma HandleExtern_invariant:
  fixes strtod :: "string \<Rightarrow> 'd" and I :: "'d state \<Rightarrow> bool"
  assumes tok: "\<And>s. I s \<Longrightarrow> post (\<lambda>_. I) E (getNextToken strtod s)"
      and out: "\<And>s es. I s \<Longrightarrow> I (s\<lparr>out := es\<rparr>)"
      and ext: "\<And>s p b. I s \<Longrightarrow> getName p = b @ ''_ext'' \<Longrightarrow>
                  I (snd (PrototypeAST_codegen p s))"
      and "I s" and d: "CurTok s = tok_extern"
  shows "post (\<lambda>_. I) E (HandleExtern strtod n s)"
proof -
  have log: "I (LogError m s)" if "I s" for s m
    unfolding LogError_def using that by (rule out)
  have pr: "I (cout a (print_function F (cout b s)))" if "I s" for s a b F
    using out [OF that]
    by (auto simp: cout_def print_function_def function_at_def split: option.splits)
  have skip: "post (\<lambda>_. I) E (bind (getNextToken strtod s1) (\<lambda>_ s2. Done () s2))"
    if "I s1" for s1
    by (rule post_bindI [OF tok [OF that]]) simp
  show ?thesis
    unfolding HandleExtern_def
  proof (rule post_bind [OF extern_invariant [OF tok log \<open>I s\<close>]])
    fix r s1
    assume q: "I s1 \<and>
      (\<forall>p. r = Some p \<longrightarrow> CurTok s = tok_extern \<longrightarrow> (\<exists>b. getName p = b @ ''_ext''))"
    show "post (\<lambda>_. I) E
           (case r of
              None \<Rightarrow> bind (getNextToken strtod s1) (\<lambda>_ s2. Done () s2)
            | Some p \<Rightarrow>
                (case PrototypeAST_codegen p s1 of
                   (FnIR, s2) \<Rightarrow>
                     Done () (cout [] (print_function FnIR (cout ''Parsed an extern:'' s2)))))"
    proof (cases r)
      case None
      with q skip show ?thesis by simp
    next
      case (Some p)
      with q d obtain b where b: "getName p = b @ ''_ext''" by blast
      obtain FnIR s2 where c: "PrototypeAST_codegen p s1 = (FnIR, s2)" by force
      have "I s2" using ext [OF conjunct1 [OF q] b] c by simp
      with Some c show ?thesis by (simp add: pr)
    qed
  qed
qed

lemma HandleTopLevelExpression_invariant:
  fixes strtod :: "string \<Rightarrow> 'd" and I :: "'d state \<Rightarrow> bool"
  assumes tok: "\<And>s. I s \<Longrightarrow> post (\<lambda>_. I) E (getNextToken strtod s)"
      and out: "\<And>s es. I s \<Longrightarrow> I (s\<lparr>out := es\<rparr>)"
      and prec: "\<And>s. I s \<Longrightarrow> I (snd (getTokPrecedence s))"
      and top: "\<And>s e r s'. I s \<Longrightarrow>
                  FunctionAST_codegen Folder (FunctionAST (PrototypeAST [] []) e) s = (r, s') \<Longrightarrow>
                  I (case r of None \<Rightarrow> s'
                     | Some FnIR \<Rightarrow> s'\<lparr>TheModule := eraseFromParent FnIR (TheModule s')\<rparr>)"
      and "I s"
  shows "post (\<lambda>_. I) E (HandleTopLevelExpression strtod Folder n s)"
proof -
  have log: "I (LogError m s)" if "I s" for s m
    unfolding LogError_def using that by (rule out)
  have pr: "I (cout a (print_function F (cout b s)))" if "I s" for s a b F
    using out [OF that]
    by (auto simp: cout_def print_function_def function_at_def split: option.splits)
  have skip: "post (\<lambda>_. I) E (bind (getNextToken strtod s1) (\<lambda>_ s2. Done () s2))"
    if "I s1" for s1
    by (rule post_bindI [OF tok [OF that]]) simp
  show ?thesis
    unfolding HandleTopLevelExpression_def
  proof (rule post_bind [OF toplevel_invariant [OF tok log prec \<open>I s\<close>]])
    fix r :: "'d FunctionAST option" and s1
    assume q: "I s1 \<and> (\<forall>fn. r = Some fn \<longrightarrow> Proto fn = PrototypeAST [] [])"
    show "post (\<lambda>_. I) E
           (case r of
              None \<Rightarrow> bind (getNextToken strtod s1) (\<lambda>_ s2. Done () s2)
            | Some fn \<Rightarrow>
                (case FunctionAST_codegen Folder fn s1 of
                   (None, s2) \<Rightarrow> Done () s2
                 | (Some FnIR, s2) \<Rightarrow>
                     let s3 = cout [] (print_function FnIR (cout ''Parsed a top-level expression:'' s2))
                     in Done () (s3\<lparr>TheModule := eraseFromParent FnIR (TheModule s3)\<rparr>)))"
    proof (cases r)
      case None
      with q skip show ?thesis by simp
    next
      case (Some fn)
      with q have fn: "fn = FunctionAST (PrototypeAST [] []) (Body fn)" by (cases fn) simp
      obtain x s2 where c: "FunctionAST_codegen Folder fn s1 = (x, s2)" by force
      note t = top [OF conjunct1 [OF q], of "Body fn" x s2, folded fn, OF c]
      show ?thesis
      proof (cases x)
        case None
        with t Some c show ?thesis by simp
      next
        case (Some FnIR)
        let ?s3 = "cout [] (print_function FnIR (cout ''Parsed a top-level expression:'' s2))"
        have "?s3\<lparr>TheModule := eraseFromParent FnIR (TheModule ?s3)\<rparr> =
              (s2\<lparr>TheModule := eraseFromParent FnIR (TheModule s2)\<rparr>)\<lparr>out := out ?s3\<rparr>"
          by (simp add: cout_def print_function_def split: option.splits)
        moreover have "I (s2\<lparr>TheModule := eraseFromParent FnIR (TheModule s2)\<rparr>)"
          using t Some by simp
        ultimately have "I (?s3\<lparr>TheModule := eraseFromParent FnIR (TheModule ?s3)\<rparr>)"
          using out by simp
        with \<open>r = Some fn\<close> c Some show ?thesis by (simp add: Let_def)
      qed
    qed
  qed
qed

lemma MainLoop_invariant:
  fixes strtod :: "string \<Rightarrow> 'd" and I :: "'d state \<Rightarrow> bool"
  assumes tok: "\<And>s. I s \<Longrightarrow> post (\<lambda>_. I) E (getNextToken strtod s)"
      and out: "\<And>s es. I s \<Longrightarrow> I (s\<lparr>out := es\<rparr>)"
      and prec: "\<And>s. I s \<Longrightarrow> I (snd (getTokPrecedence s))"
      and "def": "\<And>s fn b. I s \<Longrightarrow> getName (Proto fn) = b @ ''_def'' \<Longrightarrow>
                  I (snd (FunctionAST_codegen Folder fn s))"
      and ext: "\<And>s p b. I s \<Longrightarrow> getName p = b @ ''_ext'' \<Longrightarrow>
                  I (snd (PrototypeAST_codegen p s))"
      and top: "\<And>s e r s'. I s \<Longrightarrow>
                  FunctionAST_codegen Folder (FunctionAST (PrototypeAST [] []) e) s = (r, s') \<Longrightarrow>
                  I (case r of None \<Rightarrow> s'
                     | Some FnIR \<Rightarrow> s'\<lparr>TheModule := eraseFromParent FnIR (TheModule s')\<rparr>)"
  shows "I s \<Longrightarrow> post (\<lambda>_. I) E (MainLoop strtod Folder n s)"
proof (induction n arbitrary: s)
  case 0
  show ?case by simp
next
  case (Suc n)
  have h1: "post (\<lambda>_. I) E (HandleDefinition strtod Folder n s)" if "CurTok s = tok_def"
    by (rule HandleDefinition_invariant [where I = I and E = E];
        (rule tok out prec "def" Suc.prems that; assumption))
  have h2: "post (\<lambda>_. I) E (HandleExtern strtod n s)" if "CurTok s = tok_extern"
    by (rule HandleExtern_invariant [where I = I and E = E];
        (rule tok out ext Suc.prems that; assumption))
  have h3: "post (\<lambda>_. I) E (HandleTopLevelExpression strtod Folder n s)"
    by (rule HandleTopLevelExpression_invariant [where I = I and E = E];
        (rule tok out prec top Suc.prems; assumption))
  have c: "I (cout m s)" for m
    unfolding cout_def using Suc.prems by (rule out)
  show ?case
    using Suc.prems
    by (auto intro!: post_bindI [where I = I] Suc.IH h1 h2 h3 tok c)
qed

lemma main_invariant:
  fixes strtod :: "string \<Rightarrow> 'd" and I :: "'d state \<Rightarrow> bool"
  assumes tok: "\<And>s. I s \<Longrightarrow> post (\<lambda>_. I) E (getNextToken strtod s)"
      and out: "\<And>s es. I s \<Longrightarrow> I (s\<lparr>out := es\<rparr>)"
      and prec: "\<And>s. I s \<Longrightarrow> I (snd (getTokPrecedence s))"
      and "def": "\<And>s fn b. I s \<Longrightarrow> getName (Proto fn) = b @ ''_def'' \<Longrightarrow>
                  I (snd (FunctionAST_codegen Folder fn s))"
      and ext: "\<And>s p b. I s \<Longrightarrow> getName p = b @ ''_ext'' \<Longrightarrow>
                  I (snd (PrototypeAST_codegen p s))"
      and top: "\<And>s e r s'. I s \<Longrightarrow>
                  FunctionAST_codegen Folder (FunctionAST (PrototypeAST [] []) e) s = (r, s') \<Longrightarrow>
                  I (case r of None \<Rightarrow> s'
                     | Some FnIR \<Rightarrow> s'\<lparr>TheModule := eraseFromParent FnIR (TheModule s')\<rparr>)"
      and init: "\<And>s. I s \<Longrightarrow> I (InitializeModule s)"
      and start: "I (install_operators (initial_state strtod input))"
  shows "post (\<lambda>_. I) E (startup strtod input)"
    and "post (\<lambda>_. I) E (main strtod Folder n input)"
proof -
  have c: "I (cout m s)" if "I s" for m s
    unfolding cout_def using that by (rule out)
  show s: "post (\<lambda>_. I) E (startup strtod input)"
    unfolding startup_def
    by (rule post_bindI [OF tok [OF c [OF start]]]) (simp add: init)
  show "post (\<lambda>_. I) E (main strtod Folder n input)"
    unfolding main_def
  proof (rule post_bindI [OF s])
    fix s1 :: "'d state"
    assume "I s1"
    have "post (\<lambda>_. I) E (MainLoop strtod Folder n s1)"
      by (rule MainLoop_invariant [where I = I and E = E];
          (rule tok out prec "def" ext top \<open>I s1\<close>; assumption))
    then show "post (\<lambda>_. I) E
        (bind (MainLoop strtod Folder n s1)
           (\<lambda>_ s1. Done 0 (s1\<lparr>out := out s1 @ [PrintModule (TheModule s1)]\<rparr>)))"
      by (rule post_bindI) (simp add: out)
  qed
qed

subsection \<open>The effect of lowering an expression\<close>

lemma update_function_id:
  assumes "\<And>f. g f = f"
  shows "update_function F g M = M"
proof -
  have "map (\<lambda>(F1, f). if F1 = F then (F1, g f) else (F1, f)) xs = xs" for xs
    by (induction xs) (auto simp: assms)
  then show ?thesis by (simp add: update_function_def)
qed

lemma update_function_twice:
  "update_function F g (update_function F h M) = update_function F (\<lambda>f. g (h f)) M"
  by (simp add: update_function_def case_prod_beta o_def)

lemma insert_blocks_Nil [simp]: "insert_blocks ip [] M = M"
  by (cases ip) (auto simp: insert_blocks_def intro: update_function_id)

lemma list_update_append_twice:
  "xs[i := (xs[i := xs ! i @ Is]) ! i @ Js] = xs[i := xs ! i @ (Is @ Js)]"
  by (cases "i < length xs") (simp_all add: not_less list_update_beyond)

lemma insert_blocks_append:
  "insert_blocks ip Js (insert_blocks ip Is M) = insert_blocks ip (Is @ Js) M"
  by (cases ip)
     (auto simp: insert_blocks_def update_function_twice list_update_append_twice)

lemma insert_at_blocks: "insert_at ip I M = insert_blocks ip [I] M"
  by (simp add: insert_at_def insert_blocks_def)

lemma null_extends_refl [simp]: "null_extends NV NV"
  by (simp add: null_extends_def)

lemma null_extends_trans: "null_extends A B \<Longrightarrow> null_extends B C \<Longrightarrow> null_extends A C"
  unfolding null_extends_def by metis

lemma null_extends_upd: "NV k = None \<Longrightarrow> null_extends NV (NV(k \<mapsto> None))"
  by (simp add: null_extends_def)

lemma codegen_effect_refl [simp]: "codegen_effect s s"
  unfolding codegen_effect_def
  by (auto intro!: exI [of _ "[]"])

lemma codegen_effect_trans:
  assumes "codegen_effect s s1" and "codegen_effect s1 s2"
  shows "codegen_effect s s2"
proof -
  from assms(1) obtain Is es where 1:
    "\<forall>I \<in> set Is. \<not> isTerminator I" "TheModule s1 = insert_blocks (Builder s) Is (TheModule s)"
    "out s1 = out s @ es" "Builder s1 = Builder s" "null_extends (NamedValues s) (NamedValues s1)"
    unfolding codegen_effect_def by blast
  from assms(2) obtain Js fs where 2:
    "\<forall>I \<in> set Js. \<not> isTerminator I" "TheModule s2 = insert_blocks (Builder s1) Js (TheModule s1)"
    "out s2 = out s1 @ fs" "null_extends (NamedValues s1) (NamedValues s2)"
    unfolding codegen_effect_def by blast
  have "TheModule s2 = insert_blocks (Builder s) (Is @ Js) (TheModule s)"
    using 1 2 by (simp add: insert_blocks_append)
  moreover have "\<forall>I \<in> set (Is @ Js). \<not> isTerminator I"
    using 1 2 by auto
  moreover have "out s2 = out s @ (es @ fs)"
    using 1 2 by simp
  moreover have "null_extends (NamedValues s) (NamedValues s2)"
    using 1 2 by (blast intro: null_extends_trans)
  ultimately show ?thesis
    using assms unfolding codegen_effect_def by (metis (no_types))
qed

lemma codegen_effect_LogError [simp]: "codegen_effect s (LogError m s)"
  unfolding codegen_effect_def LogError_def
  by (auto intro!: exI [of _ "[]"])

lemma codegen_effect_insert:
  "\<not> isTerminator I \<Longrightarrow> codegen_effect s (s\<lparr>TheModule := insert_at (Builder s) I (TheModule s)\<rparr>)"
  unfolding codegen_effect_def
  by (auto simp: insert_at_blocks intro!: exI [of _ "[I]"])

lemma codegen_effect_Insert:
  "\<not> isTerminator I \<Longrightarrow> codegen_effect s (snd (Insert Folder I s))"
  by (auto simp: Insert_def codegen_effect_insert split: option.splits)

lemma codegen_effect_InsertRaw:
  "\<not> isTerminator I \<Longrightarrow> codegen_effect s (snd (InsertRaw I s))"
  by (auto simp: InsertRaw_def codegen_effect_insert)

lemma codegen_effect_null:
  "NamedValues s k = None \<Longrightarrow>
   codegen_effect s (LogError m (s\<lparr>NamedValues := (NamedValues s)(k \<mapsto> None)\<rparr>))"
  unfolding codegen_effect_def LogError_def
  by (auto simp: null_extends_upd intro!: exI [of _ "[]"])

lemma codegen_effect:
  "codegen_effect s (snd (codegen Folder e s))"
  "codegen_effect s (snd (codegen_args Folder es vs s))"
proof (induction Folder e s and Folder es vs s rule: codegen_codegen_args.induct)
  case (1 Folder Val s)
  show ?case by simp
next
  case (2 Folder Name s)
  show ?case by (auto simp: codegen_effect_null split: option.splits)
next
  case (3 Folder Op LHS RHS s)
  obtain L s1 where l: "codegen Folder LHS s = (L, s1)" by force
  obtain R s2 where r: "codegen Folder RHS s1 = (R, s2)" by force
  have e1: "codegen_effect s s1" using 3(1) l by simp
  have e2: "codegen_effect s1 s2" using 3(2) [OF l [symmetric]] r by simp
  have e: "codegen_effect s s2" using e1 e2 by (rule codegen_effect_trans)
  have ins: "codegen_effect s (snd (Insert Folder I s2))" if "\<not> isTerminator I" for I
    using e codegen_effect_Insert [OF that] by (rule codegen_effect_trans)
  have cmp: "codegen_effect s (snd (Insert Folder (UIToFP (fst (Insert Folder (FCmpULT l r) s2)))
        (snd (Insert Folder (FCmpULT l r) s2))))" for l r
    by (rule codegen_effect_trans [OF ins [of "FCmpULT l r"]])
       (auto simp: isTerminator_def intro!: codegen_effect_Insert)
  show ?case
    using l r e ins cmp
    by (auto simp: isTerminator_def case_prod_beta intro: codegen_effect_trans split: option.splits)
next
  case (4 Folder Callee Args s)
  show ?case
  proof (cases "getFunction Callee (TheModule s)")
    case None
    then show ?thesis by simp
  next
    case (Some CalleeF)
    show ?thesis
    proof (cases "length (arg_names (TheModule s) CalleeF) \<noteq> length Args")
      case True
      with Some show ?thesis by simp
    next
      case False
      obtain r s1 where a: "codegen_args Folder Args [] s = (r, s1)" by force
      have e: "codegen_effect s s1" using 4 [OF Some False] a by simp
      have "codegen_effect s (snd (InsertRaw (Call CalleeF vs) s1))" for vs
        by (rule codegen_effect_trans [OF e]) (simp add: codegen_effect_InsertRaw isTerminator_def)
      with Some False a e show ?thesis
        by (auto split: option.splits)
    qed
  qed
next
  case (5 Folder ArgsV s)
  show ?case by simp
next
  case (6 Folder Arg Args ArgsV s)
  obtain r s1 where a: "codegen Folder Arg s = (r, s1)" by force
  have e1: "codegen_effect s s1" using 6(1) a by simp
  show ?case
  proof (cases r)
    case None
    with a e1 show ?thesis by simp
  next
    case (Some V)
    have "codegen_effect s1 (snd (codegen_args Folder Args (ArgsV @ [V]) s1))"
      using 6(2) a Some by simp
    with e1 have "codegen_effect s (snd (codegen_args Folder Args (ArgsV @ [V]) s1))"
      by (rule codegen_effect_trans)
    with a Some show ?thesis by simp
  qed
qed

lemma live_names_null_extends: "null_extends NV NV' \<Longrightarrow> live_names NV' = live_names NV"
  unfolding null_extends_def live_names_def
  by (metis (no_types, opaque_lifting) option.distinct(1) option.inject)

lemma function_at_update_function:
  "function_at (update_function F g M) F' =
     (if F' = F then map_option g (function_at M F') else function_at M F')"
proof -
  have "map_of (map (\<lambda>(F1, f). if F1 = F then (F1, g f) else (F1, f)) xs) F' =
          (if F' = F then map_option g (map_of xs F') else map_of xs F')" for xs
    by (induction xs) auto
  then show ?thesis by (simp add: function_at_def update_function_def)
qed

lemma arg_names_update_function:
  "(\<And>f. fn_args (g f) = fn_args f) \<Longrightarrow> arg_names (update_function F g M) F' = arg_names M F'"
  by (auto simp: arg_names_def function_at_update_function split: option.splits)

lemma arg_names_insert_blocks [simp]: "arg_names (insert_blocks ip Is M) F = arg_names M F"
  by (cases ip) (auto simp: insert_blocks_def arg_names_update_function)

lemma arg_names_BasicBlock_Create [simp]:
  "arg_names (snd (BasicBlock_Create F M)) F' = arg_names M F'"
  by (simp add: BasicBlock_Create_def arg_names_update_function)

lemma dom_if_upd:
  "dom (\<lambda>a. if a = N then Some V else NV a) = insert N (dom NV)"
  by (auto split: if_splits)

lemma live_names_if_upd:
  "live_names (\<lambda>a. if a = N then Some (Some V) else NV a) = insert N (live_names NV)"
  by (auto simp: live_names_def)

lemma live_names_upd:
  "live_names (NV(N \<mapsto> Some V)) = insert N (live_names NV)"
  by (auto simp: live_names_def)

lemma dom_fold_bind_arguments:
  fixes f :: "nat \<times> string \<Rightarrow> (string \<rightharpoonup> 'd Value option) \<Rightarrow> (string \<rightharpoonup> 'd Value option)"
  assumes f: "\<And>i N NV. f (i, N) NV = NV(N \<mapsto> Some (Argument F i))"
  shows "dom (fold f (enumerate n Ns) NV0) = dom NV0 \<union> set Ns"
  by (induction Ns arbitrary: n NV0) (simp_all add: f dom_if_upd)

lemma live_names_fold_bind_arguments:
  fixes f :: "nat \<times> string \<Rightarrow> (string \<rightharpoonup> 'd Value option) \<Rightarrow> (string \<rightharpoonup> 'd Value option)"
  assumes f: "\<And>i N NV. f (i, N) NV = NV(N \<mapsto> Some (Argument F i))"
  shows "live_names (fold f (enumerate n Ns) NV0) = live_names NV0 \<union> set Ns"
  by (induction Ns arbitrary: n NV0) (simp_all add: f live_names_if_upd live_names_upd)

lemma live_names_empty [simp]: "live_names Map.empty = {}"
  by (simp add: live_names_def)

lemma bind_arguments_names:
  "dom (NamedValues (bind_arguments F s)) = set (arg_names (TheModule s) F)"
  "live_names (NamedValues (bind_arguments F s)) = set (arg_names (TheModule s) F)"
  by (simp_all add: bind_arguments_def dom_fold_bind_arguments live_names_fold_bind_arguments)

lemma bind_arguments_module [simp]:
  "TheModule (bind_arguments F s) = TheModule s"
  by (simp add: bind_arguments_def)

lemma codegen_live_names:
  assumes "codegen Folder e s = (r, s')"
  shows "live_names (NamedValues s') = live_names (NamedValues s)"
    and "arg_names (TheModule s') F = arg_names (TheModule s) F"
proof -
  from codegen_effect(1) [of s Folder e] assms have e: "codegen_effect s s'" by simp
  then show "live_names (NamedValues s') = live_names (NamedValues s)"
    by (simp add: codegen_effect_def live_names_null_extends)
  from e show "arg_names (TheModule s') F = arg_names (TheModule s) F"
    by (auto simp: codegen_effect_def)
qed

lemma FunctionAST_codegen_live_names:
  assumes "FunctionAST_codegen Folder FnAST s = (Some F, s')"
  shows "live_names (NamedValues s') = set (arg_names (TheModule s') F)"
proof -
  obtain TheFunction s1 where t: "(case getFunction (getName (Proto FnAST)) (TheModule s) of
              Some F \<Rightarrow> (F, s)
            | None \<Rightarrow> PrototypeAST_codegen (Proto FnAST) s) = (TheFunction, s1)"
    by force
  let ?M = "snd (BasicBlock_Create TheFunction (TheModule s1))"
  let ?BB = "fst (BasicBlock_Create TheFunction (TheModule s1))"
  let ?s3 = "bind_arguments TheFunction (s1\<lparr>TheModule := ?M, Builder := Some (TheFunction, ?BB)\<rparr>)"
  obtain r s4 where c: "codegen Folder (Body FnAST) ?s3 = (r, s4)" by force
  from assms t c obtain RetVal where r: "r = Some RetVal" and F: "F = TheFunction"
    and s': "s' = snd (InsertRaw (Ret RetVal) s4)"
    by (auto simp: FunctionAST_codegen_def LogError_def Let_def case_prod_beta
             split: if_splits option.splits)
  have "live_names (NamedValues s4) = set (arg_names (TheModule s4) TheFunction)"
    using codegen_live_names [OF c] by (simp add: bind_arguments_names)
  then show ?thesis
    by (simp add: s' F InsertRaw_def insert_at_blocks)
qed

lemma fold_bind_arguments_other:
  fixes f :: "nat \<times> string \<Rightarrow> (string \<rightharpoonup> 'd Value option) \<Rightarrow> (string \<rightharpoonup> 'd Value option)"
  assumes f: "\<And>i N NV. f (i, N) NV = NV(N \<mapsto> Some (Argument F i))"
  shows "K \<notin> set Ns \<Longrightarrow> fold f (enumerate n Ns) NV0 K = NV0 K"
  by (induction Ns arbitrary: n NV0) (simp_all add: f)

lemma fold_bind_arguments_value:
  fixes f :: "nat \<times> string \<Rightarrow> (string \<rightharpoonup> 'd Value option) \<Rightarrow> (string \<rightharpoonup> 'd Value option)"
  assumes f: "\<And>i N NV. f (i, N) NV = NV(N \<mapsto> Some (Argument F i))"
  shows "i < length Ns \<Longrightarrow> Ns ! i \<notin> set (drop (Suc i) Ns) \<Longrightarrow>
         fold f (enumerate n Ns) NV0 (Ns ! i) = Some (Some (Argument F (n + i)))"
proof (induction Ns arbitrary: n NV0 i)
  case Nil
  then show ?case by simp
next
  case (Cons N Ns)
  show ?case
  proof (cases i)
    case 0
    with Cons.prems have "N \<notin> set Ns" by simp
    then show ?thesis
      using 0 by (simp add: f fold_bind_arguments_other [of f F, OF f])
  next
    case (Suc j)
    with Cons.prems have "j < length Ns" "Ns ! j \<notin> set (drop (Suc j) Ns)" by simp_all
    from Cons.IH [OF this, of "Suc n"] Suc show ?thesis by (simp add: f)
  qed
qed

lemma bind_arguments_value:
  assumes "i < length (arg_names (TheModule s) F)"
      and "arg_names (TheModule s) F ! i \<notin> set (drop (Suc i) (arg_names (TheModule s) F))"
  shows "NamedValues (bind_arguments F s) (arg_names (TheModule s) F ! i) =
           Some (Some (Argument F i))"
proof -
  let ?f = "\<lambda>(Idx, N) NV. NV(N \<mapsto> Some (Argument F Idx))"
  have "fold ?f (enumerate 0 (arg_names (TheModule s) F)) Map.empty
          (arg_names (TheModule s) F ! i) = Some (Some (Argument F (0 + i)))"
    using assms by (intro fold_bind_arguments_value) simp_all
  then show ?thesis by (simp add: bind_arguments_def)
qed

lemma null_extends_kept: "null_extends NV NV' \<Longrightarrow> NV k = Some V \<Longrightarrow> NV' k = Some V"
  by (auto simp: null_extends_def dest: spec [of _ k])

lemma FunctionAST_codegen_bindings:
  assumes "FunctionAST_codegen Folder FnAST s = (Some F, s')"
      and "i < length (arg_names (TheModule s') F)"
      and "arg_names (TheModule s') F ! i \<notin> set (drop (Suc i) (arg_names (TheModule s') F))"
  shows "NamedValues s' (arg_names (TheModule s') F ! i) = Some (Some (Argument F i))"
proof -
  obtain TheFunction s1 where t: "(case getFunction (getName (Proto FnAST)) (TheModule s) of
              Some F \<Rightarrow> (F, s)
            | None \<Rightarrow> PrototypeAST_codegen (Proto FnAST) s) = (TheFunction, s1)"
    by force
  let ?M = "snd (BasicBlock_Create TheFunction (TheModule s1))"
  let ?BB = "fst (BasicBlock_Create TheFunction (TheModule s1))"
  let ?s2 = "s1\<lparr>TheModule := ?M, Builder := Some (TheFunction, ?BB)\<rparr>"
  let ?s3 = "bind_arguments TheFunction ?s2"
  obtain r s4 where c: "codegen Folder (Body FnAST) ?s3 = (r, s4)" by force
  from assms(1) t c obtain RetVal where r: "r = Some RetVal" and F: "F = TheFunction"
    and s': "s' = snd (InsertRaw (Ret RetVal) s4)"
    by (auto simp: FunctionAST_codegen_def LogError_def Let_def case_prod_beta
             split: if_splits option.splits)
  have names: "arg_names (TheModule s') F = arg_names (TheModule ?s2) F"
    using codegen_live_names(2) [OF c, of F] by (simp add: s' InsertRaw_def insert_at_blocks)
  note i = assms(2,3) [unfolded names]
  have "NamedValues (bind_arguments F ?s2) (arg_names (TheModule ?s2) F ! i) =
      Some (Some (Argument F i))"
    using i by (rule bind_arguments_value)
  then have "NamedValues ?s3 (arg_names (TheModule ?s2) F ! i) = Some (Some (Argument F i))"
    by (simp only: F)
  moreover have "null_extends (NamedValues ?s3) (NamedValues s4)"
    using codegen_effect(1) [of ?s3 Folder "Body FnAST"] c by (simp add: codegen_effect_def)
  ultimately have "NamedValues s4 (arg_names (TheModule ?s2) F ! i) = Some (Some (Argument F i))"
    by (rule null_extends_kept [rotated])
  then show ?thesis unfolding names by (simp add: s' InsertRaw_def)
qed

subsection \<open>The precedence table\<close>

lemma postD:
  assumes "post Q E r"
  shows "r = Done a s \<Longrightarrow> Q a s" and "r = Exited s \<Longrightarrow> E s"
  using assms by simp_all

lemma table_extends_refl [simp]: "table_extends T T"
  by (simp add: table_extends_def)

lemma table_extends_trans: "table_extends A B \<Longrightarrow> table_extends B C \<Longrightarrow> table_extends A C"
  unfolding table_extends_def by metis

lemma getTokPrecedence_table:
  "table_extends (BinopPrecedence s) (BinopPrecedence (snd (getTokPrecedence s)))"
  by (auto simp: getTokPrecedence_def table_extends_def split: option.splits)

lemma getTokPrecedence_answer:
  assumes "table_extends (BinopPrecedence s) (BinopPrecedence s')" and "CurTok s' = CurTok s"
  shows "fst (getTokPrecedence s') = fst (getTokPrecedence s)"
proof -
  from assms(1) have "BinopPrecedence s' (char_of (CurTok s)) = BinopPrecedence s (char_of (CurTok s)) \<or>
      (BinopPrecedence s (char_of (CurTok s)) = None \<and> BinopPrecedence s' (char_of (CurTok s)) = Some 0)"
    by (simp add: table_extends_def)
  then show ?thesis
    using assms(2) by (auto simp: getTokPrecedence_def split: option.splits)
qed

lemma getNextToken_post:
  "post (\<lambda>_ s'. lexer_step s (s'\<lparr>CurTok := CurTok s\<rparr>)) (fatal_exit s) (getNextToken strtod s)"
  unfolding getNextToken_def
  by (rule post_bind [OF gettok_post]) (simp add: lexer_step_def)

lemma PrototypeAST_codegen_frame:
  "BinopPrecedence (snd (PrototypeAST_codegen p s)) = BinopPrecedence s"
  "out (snd (PrototypeAST_codegen p s)) = out s"
  by (simp_all add: PrototypeAST_codegen_def Function_Create_def)

lemma FunctionAST_codegen_frame:
  "BinopPrecedence (snd (FunctionAST_codegen Folder fn s)) = BinopPrecedence s"
proof -
  have "BinopPrecedence (snd (codegen Folder e s)) = BinopPrecedence s" for e and s :: "'a state"
    using codegen_effect(1) [of s Folder e] by (simp add: codegen_effect_def)
  then show ?thesis
    by (auto simp: FunctionAST_codegen_def PrototypeAST_codegen_frame LogError_def Let_def
          InsertRaw_def bind_arguments_def case_prod_beta split: option.splits)
qed

lemma table_invariant:
  fixes strtod :: "string \<Rightarrow> 'd"
  defines "I T \<equiv> \<lambda>s :: 'd state. table_extends T (BinopPrecedence s)"
  shows "I T s \<Longrightarrow> post (\<lambda>_. I T) (I T) (getNextToken strtod s)"
    and "I T s \<Longrightarrow> I T (s\<lparr>out := es\<rparr>)"
    and "I T s \<Longrightarrow> I T (LogError m s)"
    and "I T s \<Longrightarrow> I T (snd (getTokPrecedence s))"
    and "I T s \<Longrightarrow> I T (snd (FunctionAST_codegen Folder fn s))"
    and "I T s \<Longrightarrow> I T (snd (PrototypeAST_codegen p s))"
    and "I T s \<Longrightarrow> FunctionAST_codegen Folder fn s = (r, s') \<Longrightarrow>
           I T (case r of None \<Rightarrow> s'
                | Some FnIR \<Rightarrow> s'\<lparr>TheModule := eraseFromParent FnIR (TheModule s')\<rparr>)"
    and "I T s \<Longrightarrow> I T (InitializeModule s)"
proof -
  show "post (\<lambda>_. I T) (I T) (getNextToken strtod s)" if "I T s"
    by (rule post_mono [OF getNextToken_post])
       (use that in \<open>auto simp: I_def lexer_step_def fatal_exit_def\<close>)
  show "I T (s\<lparr>out := es\<rparr>)" if "I T s"
    using that by (simp add: I_def)
  show "I T (LogError m s)" if "I T s"
    using that by (simp add: I_def LogError_def)
  show "I T (snd (getTokPrecedence s))" if "I T s"
    using that getTokPrecedence_table [of s] unfolding I_def by (rule table_extends_trans)
  show "I T (snd (FunctionAST_codegen Folder fn s))" if "I T s"
    using that by (simp add: I_def FunctionAST_codegen_frame)
  show "I T (snd (PrototypeAST_codegen p s))" if "I T s"
    using that by (simp add: I_def PrototypeAST_codegen_frame)
  show "I T (case r of None \<Rightarrow> s'
                | Some FnIR \<Rightarrow> s'\<lparr>TheModule := eraseFromParent FnIR (TheModule s')\<rparr>)"
    if "I T s" "FunctionAST_codegen Folder fn s = (r, s')"
    using that FunctionAST_codegen_frame [of Folder fn s]
    by (auto simp: I_def split: option.splits)
  show "I T (InitializeModule s)" if "I T s"
    using that by (simp add: I_def InitializeModule_def)
qed

lemma ParseExpression_invariant:
  assumes tok: "\<And>s. I s \<Longrightarrow> post (\<lambda>_. I) E (getNextToken strtod s)"
      and log: "\<And>s m. I s \<Longrightarrow> I (LogError m s)"
      and prec: "\<And>s. I s \<Longrightarrow> I (snd (getTokPrecedence s))"
      and "I s"
  shows "post (\<lambda>_. I) E (ParseExpression strtod n s)"
  using expression_invariant [OF tok log prec, of n] \<open>I s\<close> by blast

lemma entry_after_simps [simp]:
  "entry_after None s" "entry_after (Some a) s = looked_up s"
  by (simp_all add: entry_after_def)


lemma getTokPrecedence_exact:
  assumes "getTokPrecedence s = (p, s')"
  shows "isascii (CurTok s) \<and> BinopPrecedence s (char_of (CurTok s)) = None \<Longrightarrow>
           s' = s\<lparr>BinopPrecedence := (BinopPrecedence s)(char_of (CurTok s) \<mapsto> 0)\<rparr> \<and> p = - 1"
    and "\<not> isascii (CurTok s) \<or> BinopPrecedence s (char_of (CurTok s)) \<noteq> None \<Longrightarrow> s' = s"
    and "looked_up s'"
  using assms
  by (auto simp: getTokPrecedence_def looked_up_def split: if_splits option.splits)

lemma post_trivial: "post (\<lambda>_ _. True) (\<lambda>_. True) r"
  by (cases r) simp_all

lemma ParseBinOpRHS_looked_up:
  "post entry_after (\<lambda>_. True) (ParseBinOpRHS strtod n p l s)"
proof (induction n arbitrary: p l s)
  case 0
  show ?case by simp
next
  case (Suc n)
  obtain TokPrec s1 where t: "getTokPrecedence s = (TokPrec, s1)" by force
  note l = getTokPrecedence_exact(3) [OF t]
  show ?case
    using t l
    by (auto simp: Let_def simp del: ParsePrimary.simps ParseBinOpRHS.simps
          simp add: ParseBinOpRHS.simps(2) [of _ n]
          intro!: post_bind [OF post_trivial] Suc.IH
          split: option.splits prod.splits)
qed

lemma ParseExpression_looked_up:
  "post entry_after (\<lambda>_. True) (ParseExpression strtod n s)"
proof (cases n)
  case 0
  then show ?thesis by simp
next
  case (Suc m)
  show ?thesis
    unfolding Suc ParseExpression.simps
    by (auto simp del: ParsePrimary.simps ParseBinOpRHS.simps
          intro!: post_bind [OF post_trivial] ParseBinOpRHS_looked_up split: option.splits)
qed

subsection \<open>Numeric literals\<close>

lemma of_char_dot: "(of_char c = (46::int)) = (c = CHR ''.'')"
proof -
  have "(of_char c = (of_char CHR ''.'' :: int)) = (c = CHR ''.'')"
    by (rule of_char_eq_iff)
  then show ?thesis by simp
qed

lemma number_char:
  assumes "isdigit L \<or> L = 46"
  shows "of_char (char_of L) = L" and "(char_of L = CHR ''.'') = (L = 46)"
proof -
  from assms have "0 \<le> L" "L < 256" by (auto simp: isdigit_def)
  then have m: "L mod 256 = L" by simp
  show "of_char (char_of L) = L" by (simp add: of_char_of m)
  show "(char_of L = CHR ''.'') = (L = 46)"
    using of_char_dot [of "char_of L"] by (simp add: of_char_of m)
qed

lemma read_number_spec:
  assumes "isdigit (LastChar s) \<or> LastChar s = of_char CHR ''.''"
  shows "fst (read_number NumStr hasDecimal decimalError s) =
           (NumStr @ number_text s,
            hasDecimal \<or> CHR ''.'' \<in> set (number_text s),
            decimalError \<or> 2 \<le> count_list (number_text s) CHR ''.'' + (if hasDecimal then 1 else 0))"
  using assms
proof (induction NumStr hasDecimal decimalError s rule: read_number.induct)
  case (1 NumStr hasDecimal decimalError s)
  let ?P = "\<lambda>c. isdigit (of_char c :: int) \<or> c = CHR ''.''"
  let ?c0 = "char_of (LastChar s)"
  from "1.prems" have L: "isdigit (LastChar s) \<or> LastChar s = 46" by simp
  note nc = number_char [OF L]
  have P0: "?P ?c0" using L nc by auto
  have dot: "(LastChar s = 46) = (?c0 = CHR ''.'')" using nc by simp
  show ?case
  proof (cases "stdin s")
    case Nil
    then have nt: "number_text s = [?c0]" using P0 by (simp add: number_text_def)
    have "LastChar (getchar s) = EOF" using Nil by (simp add: getchar_def)
    then show ?thesis
      by (subst read_number.simps) (auto simp: Let_def nt isdigit_def dot)
  next
    case (Cons c cs)
    have g: "LastChar (getchar s) = of_char c" "stdin (getchar s) = cs"
      using Cons by (simp_all add: getchar_def)
    have cond: "(isdigit (LastChar (getchar s)) \<or> LastChar (getchar s) = of_char CHR ''.'') = ?P c"
      by (simp add: g of_char_dot)
    show ?thesis
    proof (cases "?P c")
      case False
      then have nt: "number_text s = [?c0]" using P0 Cons by (simp add: number_text_def)
      from False cond show ?thesis
        by (subst read_number.simps) (auto simp: Let_def nt dot)
    next
      case True
      have nt1: "number_text (getchar s) = takeWhile ?P (c # cs)"
        by (simp add: number_text_def g)
      have nt0: "number_text s = ?c0 # takeWhile ?P (c # cs)"
        using P0 Cons by (simp add: number_text_def)
      have nt: "number_text s = ?c0 # number_text (getchar s)"
        by (simp only: nt0 nt1)
      have ih: "fst (read_number (NumStr @ [?c0]) (if LastChar s = of_char CHR ''.'' then True else hasDecimal)
            (if LastChar s = of_char CHR ''.'' \<and> hasDecimal then True else decimalError) (getchar s)) =
           ((NumStr @ [?c0]) @ number_text (getchar s),
            (if LastChar s = of_char CHR ''.'' then True else hasDecimal) \<or> CHR ''.'' \<in> set (number_text (getchar s)),
            (if LastChar s = of_char CHR ''.'' \<and> hasDecimal then True else decimalError) \<or>
              2 \<le> count_list (number_text (getchar s)) CHR ''.'' +
                (if (if LastChar s = of_char CHR ''.'' then True else hasDecimal) then 1 else 0))"
        using True cond by (intro "1.IH") auto
      have eq: "read_number NumStr hasDecimal decimalError s =
          read_number (NumStr @ [?c0]) (if LastChar s = of_char CHR ''.'' then True else hasDecimal)
            (if LastChar s = of_char CHR ''.'' \<and> hasDecimal then True else decimalError) (getchar s)"
        using True cond by (subst read_number.simps) (simp add: Let_def)
      show ?thesis
        unfolding eq ih nt using dot by auto
    qed
  qed
qed

lemma gettok_number:
  assumes start: "isdigit (LastChar (skip_whitespace s)) \<or> LastChar (skip_whitespace s) = of_char CHR ''.''"
  shows "gettok strtod s =
           (let s0 = skip_whitespace s;
                txt = number_text s0;
                s2 = (snd (read_number [] False False s0))\<lparr>NumVal := strtod txt\<rparr>
            in if 2 \<le> count_list txt CHR ''.''
               then Exited (s2\<lparr>out := out s2 @ [NumberSyntaxError (strtod txt)]\<rparr>)
               else Done tok_number s2)"
proof -
  let ?s0 = "skip_whitespace s"
  obtain NumStr hd de s1 where r: "read_number [] False False ?s0 = ((NumStr, hd, de), s1)"
    by (metis prod.exhaust)
  from read_number_spec [OF start, of "[]" False False] r
  have spec: "NumStr = number_text ?s0" "de = (2 \<le> count_list (number_text ?s0) CHR ''.'')"
    by simp_all
  have na: "\<not> isalpha (LastChar ?s0)"
    using start by (auto simp: isalpha_def isdigit_def)
  show ?thesis
    using na start r spec
    by (subst gettok.simps) (simp add: Let_def)
qed

lemma fatal_invariant:
  fixes strtod :: "string \<Rightarrow> 'd"
  shows "post (\<lambda>_ _. True) fatal_reported (getNextToken strtod s)"
  by (rule post_mono [OF getNextToken_post])
     (auto simp: fatal_exit_def fatal_reported_def)

subsection \<open>The budget that suffices\<close>

lemma returns_simps [simp]:
  "returns Q (Done a s) = Q a s"
  "returns Q (Exited s) = True"
  "returns Q OutOfFuel = False"
  by (simp_all add: returns_def)

lemma returns_bind:
  assumes "returns Q1 m" and "\<And>a s. Q1 a s \<Longrightarrow> returns Q (f a s)"
  shows "returns Q (bind m f)"
  using assms by (cases m) simp_all

lemma returns_mono:
  assumes "returns Q1 r" and "\<And>a s. Q1 a s \<Longrightarrow> Q a s"
  shows "returns Q r"
  using assms by (cases r) simp_all

lemma unread_getchar:
  "unread (getchar s) \<le> unread s"
  "LastChar s \<noteq> EOF \<Longrightarrow> unread (getchar s) < unread s"
  by (auto simp: unread_def getchar_def split: list.splits)

lemma unread_skip_whitespace: "unread (skip_whitespace s) \<le> unread s"
proof (induction s rule: skip_whitespace.induct)
  case (1 s)
  show ?case
  proof (cases "isspace (LastChar s)")
    case True
    with 1 have "unread (skip_whitespace s) \<le> unread (getchar s)"
      by (subst skip_whitespace.simps) simp
    with unread_getchar(1) [of s] show ?thesis by simp
  next
    case False
    then show ?thesis by (subst skip_whitespace.simps) simp
  qed
qed

lemma unread_skip_comment:
  "unread (skip_comment s) \<le> unread s"
  "LastChar s \<noteq> EOF \<Longrightarrow> unread (skip_comment s) < unread s"
proof -
  have "unread (skip_comment s) \<le> unread (getchar s)"
  proof (induction s rule: skip_comment.induct)
    case (1 s)
    let ?s1 = "getchar s"
    show ?case
    proof (cases "LastChar ?s1 \<noteq> EOF \<and> LastChar ?s1 \<noteq> 10 \<and> LastChar ?s1 \<noteq> 13")
      case True
      then have "skip_comment s = skip_comment ?s1"
        by (subst skip_comment.simps) (simp add: Let_def)
      with 1 [OF refl True] unread_getchar(1) [of ?s1] show ?thesis by simp
    next
      case False
      then have "skip_comment s = ?s1"
        by (subst skip_comment.simps) (auto simp: Let_def)
      then show ?thesis by simp
    qed
  qed
  with unread_getchar [of s]
  show "unread (skip_comment s) \<le> unread s"
    and "LastChar s \<noteq> EOF \<Longrightarrow> unread (skip_comment s) < unread s"
    by simp_all
qed

lemma unread_read_identifier:
  "LastChar s \<noteq> EOF \<Longrightarrow> unread (read_identifier s) < unread s"
proof (induction s rule: read_identifier.induct)
  case (1 s)
  let ?s1 = "getchar s"
  let ?s2 = "?s1\<lparr>IdentifierStr := IdentifierStr ?s1 @ [char_of (LastChar ?s1)]\<rparr>"
  have lt: "unread ?s1 < unread s" using "1.prems" by (rule unread_getchar)
  show ?case
  proof (cases "isalnum (LastChar ?s1)")
    case True
    then have eq: "read_identifier s = read_identifier ?s2"
      by (subst read_identifier.simps) (simp add: Let_def)
    from True have "LastChar ?s2 \<noteq> EOF"
      by (auto simp: isalnum_def isalpha_def isdigit_def)
    from "1.IH" [OF refl True this] have "unread (read_identifier ?s2) < unread ?s2" .
    moreover have "unread ?s2 = unread ?s1" by (simp add: unread_def)
    ultimately show ?thesis using lt eq by simp
  next
    case False
    then have "read_identifier s = ?s1"
      by (subst read_identifier.simps) (simp add: Let_def)
    with lt show ?thesis by simp
  qed
qed

lemma unread_read_number:
  "LastChar s \<noteq> EOF \<Longrightarrow> unread (snd (read_number NumStr hasDecimal decimalError s)) < unread s"
proof (induction NumStr hasDecimal decimalError s rule: read_number.induct)
  case (1 NumStr hasDecimal decimalError s)
  let ?s1 = "getchar s"
  have lt: "unread ?s1 < unread s" using "1.prems" by (rule unread_getchar)
  show ?case
  proof (cases "isdigit (LastChar ?s1) \<or> LastChar ?s1 = of_char CHR ''.''")
    case True
    then have ne: "LastChar ?s1 \<noteq> EOF" by (auto simp: isdigit_def)
    have "unread (snd (read_number NumStr hasDecimal decimalError s)) < unread ?s1"
      using True "1.IH" [OF refl refl refl refl True ne]
      by (subst read_number.simps) (simp add: Let_def)
    with lt show ?thesis by simp
  next
    case False
    then have "snd (read_number NumStr hasDecimal decimalError s) = ?s1"
      by (subst read_number.simps) (simp add: Let_def)
    with lt show ?thesis by simp
  qed
qed


lemma unread_update [simp]:
  "unread (s\<lparr>IdentifierStr := x\<rparr>) = unread s"
  "unread (s\<lparr>NumVal := v\<rparr>) = unread s"
  "unread (s\<lparr>out := e\<rparr>) = unread s"
  "unread (s\<lparr>CurTok := t\<rparr>) = unread s"
  by (simp_all add: unread_def)

lemma gettok_returns:
  "returns (\<lambda>t s'. unread s' \<le> unread s \<and> (t \<noteq> tok_eof \<longrightarrow> unread s' < unread s))
     (gettok strtod s)"
proof (induction strtod s rule: gettok.induct)
  case (1 strtod s0)
  let ?s = "skip_whitespace s0"
  have ws: "unread ?s \<le> unread s0" by (rule unread_skip_whitespace)
  consider (ident) "isalpha (LastChar ?s)"
    | (number) "\<not> isalpha (LastChar ?s)" "isdigit (LastChar ?s) \<or> LastChar ?s = of_char CHR ''.''"
    | (comment) "\<not> isalpha (LastChar ?s)" "\<not> (isdigit (LastChar ?s) \<or> LastChar ?s = of_char CHR ''.'')"
        "LastChar ?s = of_char CHR ''#'' \<and> LastChar (skip_comment ?s) \<noteq> EOF"
    | (other) "\<not> isalpha (LastChar ?s)" "\<not> (isdigit (LastChar ?s) \<or> LastChar ?s = of_char CHR ''.'')"
        "\<not> (LastChar ?s = of_char CHR ''#'' \<and> LastChar (skip_comment ?s) \<noteq> EOF)"
    by blast
  then show ?case
  proof cases
    case ident
    let ?s1 = "read_identifier (?s\<lparr>IdentifierStr := [char_of (LastChar ?s)]\<rparr>)"
    from ident have "gettok strtod s0 =
        (if IdentifierStr ?s1 = ''def'' then Done tok_def ?s1
         else if IdentifierStr ?s1 = ''extern'' then Done tok_extern ?s1
         else Done tok_identifier ?s1)"
      by (subst gettok.simps) (simp only: Let_def if_True)
    moreover from ident have "LastChar (?s\<lparr>IdentifierStr := [char_of (LastChar ?s)]\<rparr>) \<noteq> EOF"
      by (auto simp: isalpha_def)
    then have "unread ?s1 < unread ?s"
      using unread_read_identifier [of "?s\<lparr>IdentifierStr := [char_of (LastChar ?s)]\<rparr>"] by simp
    ultimately show ?thesis using ws by simp
  next
    case number
    then have "gettok strtod s0 =
        (case read_number [] False False ?s of
           ((NumStr, hasDecimal, decimalError), s1) \<Rightarrow>
             let s2 = s1\<lparr>NumVal := strtod NumStr\<rparr> in
             if decimalError
             then Exited (s2\<lparr>out := out s2 @ [NumberSyntaxError (NumVal s2)]\<rparr>)
             else Done tok_number s2)"
      by (subst gettok.simps) (simp only: Let_def if_True if_False)
    moreover from number have "LastChar ?s \<noteq> EOF" by (auto simp: isdigit_def)
    then have "unread (snd (read_number [] False False ?s)) < unread ?s"
      by (rule unread_read_number)
    ultimately show ?thesis using ws by (auto simp: Let_def split: prod.splits)
  next
    case comment
    then have eq: "gettok strtod s0 = gettok strtod (skip_comment ?s)"
      by (subst gettok.simps) (simp add: Let_def)
    have "returns (\<lambda>t s'. unread s' \<le> unread (skip_comment ?s)
              \<and> (t \<noteq> tok_eof \<longrightarrow> unread s' < unread (skip_comment ?s)))
            (gettok strtod (skip_comment ?s))"
      using comment by (intro 1) auto
    then show ?thesis
      unfolding eq
      by (rule returns_mono) (use ws unread_skip_comment(1) [of ?s] in auto)
  next
    case other
    let ?s1 = "if LastChar ?s = of_char CHR ''#'' then skip_comment ?s else ?s"
    from other have "gettok strtod s0 =
        (if LastChar ?s1 = EOF then Done tok_eof ?s1 else Done (LastChar ?s1) (getchar ?s1))"
      by (subst gettok.simps) (auto simp: Let_def)
    moreover have "unread ?s1 \<le> unread s0"
      using ws unread_skip_comment(1) [of ?s] by auto
    moreover have "LastChar ?s1 \<noteq> EOF \<Longrightarrow> unread (getchar ?s1) < unread ?s1"
      by (rule unread_getchar)
    ultimately show ?thesis by auto
  qed
qed

lemma getNextToken_returns:
  "returns (\<lambda>t s'. CurTok s' = t \<and> pending s' \<le> pending s
              \<and> (CurTok s \<noteq> tok_eof \<longrightarrow> pending s' < pending s))
     (getNextToken strtod s)"
  using gettok_returns [of s strtod]
  by (cases "gettok strtod s") (auto simp: getNextToken_def pending_def)


lemma pending_LogError [simp]:
  "pending (LogError m s) = pending s" "CurTok (LogError m s) = CurTok s"
  by (simp_all add: LogError_def pending_def unread_def)

lemma getTokPrecedence_pending:
  assumes "getTokPrecedence s = (p, s1)"
  shows "pending s1 = pending s" and "CurTok s1 = CurTok s"
    and "0 \<le> p \<Longrightarrow> CurTok s \<noteq> tok_eof"
  using assms
  by (auto simp: getTokPrecedence_def isascii_def pending_def unread_def
           split: if_splits option.splits)

lemma expression_returns:
  "(\<forall>s. 4 * pending s + 3 \<le> n \<longrightarrow> returns (advance s) (ParsePrimary strtod n s)) \<and>
   (\<forall>s. CurTok s \<noteq> tok_eof \<longrightarrow> 4 * pending s + 2 \<le> n \<longrightarrow>
        returns (advance s) (ParseParenExpr strtod n s)) \<and>
   (\<forall>s. CurTok s \<noteq> tok_eof \<longrightarrow> 4 * pending s + 2 \<le> n \<longrightarrow>
        returns (advance s) (ParseIdentifierExpr strtod n s)) \<and>
   (\<forall>s Args. 4 * pending s + 5 \<le> n \<longrightarrow> returns (advance s) (ParseArgs strtod n Args s)) \<and>
   (\<forall>s p l. 0 \<le> p \<longrightarrow> 4 * pending s + 3 \<le> n \<longrightarrow>
        returns (\<lambda>_ s'. pending s' \<le> pending s) (ParseBinOpRHS strtod n p l s)) \<and>
   (\<forall>s. 4 * pending s + 4 \<le> n \<longrightarrow> returns (advance s) (ParseExpression strtod n s))"
proof (induction n)
  case 0
  show ?case by simp
next
  case (Suc n)
  then have ih:
    "\<And>s. 4 * pending s + 3 \<le> n \<Longrightarrow> returns (advance s) (ParsePrimary strtod n s)"
    "\<And>s. CurTok s \<noteq> tok_eof \<Longrightarrow> 4 * pending s + 2 \<le> n \<Longrightarrow>
        returns (advance s) (ParseParenExpr strtod n s)"
    "\<And>s. CurTok s \<noteq> tok_eof \<Longrightarrow> 4 * pending s + 2 \<le> n \<Longrightarrow>
        returns (advance s) (ParseIdentifierExpr strtod n s)"
    "\<And>s Args. 4 * pending s + 5 \<le> n \<Longrightarrow> returns (advance s) (ParseArgs strtod n Args s)"
    "\<And>s p l. 0 \<le> p \<Longrightarrow> 4 * pending s + 3 \<le> n \<Longrightarrow>
        returns (\<lambda>_ s'. pending s' \<le> pending s) (ParseBinOpRHS strtod n p l s)"
    "\<And>s. 4 * pending s + 4 \<le> n \<Longrightarrow> returns (advance s) (ParseExpression strtod n s)"
    by blast+
  note tok = returns_bind [OF getNextToken_returns]
  have primary: "returns (advance s) (ParsePrimary strtod (Suc n) s)"
    if "4 * pending s + 3 \<le> Suc n" for s
    using that
    by (auto simp: ParseNumberExpr_def advance_def intro!: tok ih(2,3))
  have paren: "returns (advance s) (ParseParenExpr strtod (Suc n) s)"
    if "CurTok s \<noteq> tok_eof" "4 * pending s + 2 \<le> Suc n" for s
    using that
    by (auto simp: advance_def intro!: tok returns_bind [OF ih(6)] split: option.splits)
  have ident: "returns (advance s) (ParseIdentifierExpr strtod (Suc n) s)"
    if "CurTok s \<noteq> tok_eof" "4 * pending s + 2 \<le> Suc n" for s
    using that
    by (auto simp: advance_def Let_def intro!: tok returns_bind [OF ih(4)] split: option.splits)
  have args: "returns (advance s) (ParseArgs strtod (Suc n) Args s)"
    if "4 * pending s + 5 \<le> Suc n" for s Args
    using that
    by (auto simp: advance_def Let_def
             intro!: tok returns_bind [OF ih(6)] returns_mono [OF ih(4)]
             split: option.splits)
  have expr: "returns (advance s) (ParseExpression strtod (Suc n) s)"
    if "4 * pending s + 4 \<le> Suc n" for s
    using that
    by (auto simp: advance_def Let_def intro!: returns_bind [OF ih(1)] returns_mono [OF ih(5)]
             split: option.splits)
  have binop: "returns (\<lambda>_ s'. pending s' \<le> pending s) (ParseBinOpRHS strtod (Suc n) p l s)"
    if "0 \<le> p" "4 * pending s + 3 \<le> Suc n" for s p l
  proof (cases "getTokPrecedence s")
    case (Pair TokPrec s1)
    note s1 = getTokPrecedence_pending [OF Pair]
    show ?thesis
    proof (cases "TokPrec < p")
      case True
      with Pair s1 show ?thesis by simp
    next
      case False
      with that have "CurTok s1 \<noteq> tok_eof" "0 \<le> TokPrec + 1"
        using s1 by auto
      with False Pair s1 that show ?thesis
        by (auto simp: advance_def Let_def dest!: getTokPrecedence_pending(1)
                 intro!: tok returns_bind [OF ih(1)] returns_bind [OF ih(5)]
                   returns_mono [OF ih(5)]
                 split: option.splits prod.splits)
    qed
  qed
  from primary paren ident args binop expr show ?case by blast
qed


lemma pending_cong:
  "stdin s' = stdin s \<Longrightarrow> LastChar s' = LastChar s \<Longrightarrow> CurTok s' = CurTok s \<Longrightarrow>
   pending s' = pending s"
  by (simp add: pending_def unread_def)

lemma pending_output [simp]:
  "pending (cout m s) = pending s" "CurTok (cout m s) = CurTok s"
  "pending (print_function F s) = pending s" "CurTok (print_function F s) = CurTok s"
  "pending (InitializeModule s) = pending s" "CurTok (InitializeModule s) = CurTok s"
  "pending (s\<lparr>TheModule := M\<rparr>) = pending s"
  by (simp_all add: cout_def print_function_def InitializeModule_def pending_def unread_def
        split: option.splits)

lemma pending_PrototypeAST_codegen [simp]:
  "pending (snd (PrototypeAST_codegen p s)) = pending s"
  by (rule pending_cong) (simp_all add: PrototypeAST_codegen_def Function_Create_def)

lemma pending_FunctionAST_codegen [simp]:
  "pending (snd (FunctionAST_codegen Folder fn s)) = pending s"
proof -
  have "stdin (snd (codegen Folder e s)) = stdin s \<and> LastChar (snd (codegen Folder e s)) = LastChar s
        \<and> CurTok (snd (codegen Folder e s)) = CurTok s" for e and s :: "'a state"
    using codegen_effect(1) [of s Folder e] by (simp add: codegen_effect_def)
  then show ?thesis
    by (intro pending_cong)
       (auto simp: FunctionAST_codegen_def PrototypeAST_codegen_def Function_Create_def
          LogError_def Let_def InsertRaw_def bind_arguments_def case_prod_beta
          split: option.splits)
qed

lemma ParsePrototypeArgs_returns:
  "CurTok s \<noteq> tok_eof \<Longrightarrow> pending s + 1 \<le> n \<Longrightarrow>
   returns (\<lambda>_ s'. pending s' < pending s) (ParsePrototypeArgs strtod n ArgNames s)"
proof (induction n arbitrary: s ArgNames)
  case 0
  then show ?case by simp
next
  case (Suc n)
  from Suc.prems show ?case
    by (auto intro!: returns_bind [OF getNextToken_returns] returns_mono [OF Suc.IH])
qed

lemma ParsePrototype_returns:
  "CurTok s \<noteq> tok_eof \<Longrightarrow> pending s + 1 \<le> n \<Longrightarrow>
   returns (\<lambda>_ s'. pending s' < pending s) (ParsePrototype strtod n s)"
  unfolding ParsePrototype_def Let_def
  by (auto intro!: returns_bind [OF getNextToken_returns]
        returns_bind [OF ParsePrototypeArgs_returns])

lemma ParseExpression_returns:
  "4 * pending s + 4 \<le> n \<Longrightarrow> returns (advance s) (ParseExpression strtod n s)"
  using expression_returns [of n strtod] by blast

lemma ParseDefinition_returns:
  "CurTok s \<noteq> tok_eof \<Longrightarrow> 4 * pending s + 4 \<le> n \<Longrightarrow>
   returns (\<lambda>_ s'. pending s' < pending s) (ParseDefinition strtod n s)"
  unfolding ParseDefinition_def
  by (auto simp: advance_def intro!: returns_bind [OF ParsePrototype_returns]
        returns_bind [OF ParseExpression_returns] split: option.splits)

lemma ParseTopLevelExpr_returns:
  "4 * pending s + 4 \<le> n \<Longrightarrow> returns (advance s) (ParseTopLevelExpr strtod n s)"
  unfolding ParseTopLevelExpr_def
  by (auto simp: advance_def intro!: returns_bind [OF ParseExpression_returns]
        split: option.splits)

lemma pending_lowered:
  "FunctionAST_codegen Folder fn s = (r, s') \<Longrightarrow> pending s' = pending s"
  "PrototypeAST_codegen p s = (F, s') \<Longrightarrow> pending s' = pending s"
  using pending_FunctionAST_codegen [of Folder fn s] pending_PrototypeAST_codegen [of p s]
  by simp_all

lemma HandleDefinition_returns:
  "CurTok s \<noteq> tok_eof \<Longrightarrow> 4 * pending s + 4 \<le> n \<Longrightarrow>
   returns (\<lambda>_ s'. pending s' < pending s) (HandleDefinition strtod Folder n s)"
  unfolding HandleDefinition_def
  by (auto intro!: returns_bind [OF ParseDefinition_returns]
        returns_bind [OF getNextToken_returns]
        dest!: pending_lowered split: option.splits prod.splits)

lemma HandleExtern_returns:
  "CurTok s \<noteq> tok_eof \<Longrightarrow> pending s + 1 \<le> n \<Longrightarrow>
   returns (\<lambda>_ s'. pending s' < pending s) (HandleExtern strtod n s)"
  unfolding HandleExtern_def ParseExtern_def
  by (auto intro!: returns_bind [OF ParsePrototype_returns]
        returns_bind [OF getNextToken_returns]
        dest!: pending_lowered split: option.splits prod.splits)

lemma HandleTopLevelExpression_returns:
  "CurTok s \<noteq> tok_eof \<Longrightarrow> 4 * pending s + 4 \<le> n \<Longrightarrow>
   returns (\<lambda>_ s'. pending s' < pending s) (HandleTopLevelExpression strtod Folder n s)"
  unfolding HandleTopLevelExpression_def
  by (auto simp: advance_def Let_def intro!: returns_bind [OF ParseTopLevelExpr_returns]
        returns_bind [OF getNextToken_returns]
        dest!: pending_lowered split: option.splits prod.splits)

lemma MainLoop_returns:
  "4 * pending s + 5 \<le> n \<Longrightarrow> returns (\<lambda>_ _. True) (MainLoop strtod Folder n s)"
proof (induction n arbitrary: s)
  case 0
  then show ?case by simp
next
  case (Suc n)
  from Suc.prems show ?case
    by (auto intro!: returns_bind [OF getNextToken_returns]
          returns_bind [OF HandleDefinition_returns] returns_bind [OF HandleExtern_returns]
          returns_bind [OF HandleTopLevelExpression_returns] Suc.IH)
qed

lemma startup_returns:
  "returns (\<lambda>_ s. pending s \<le> length input + 1) (startup strtod input)"
proof -
  let ?s = "cout ''ready> '' (install_operators (initial_state strtod input))"
  have "pending ?s = length input + 2" "CurTok ?s \<noteq> tok_eof"
    by (simp_all add: pending_def unread_def initial_state_def install_operators_def cout_def)
  then show ?thesis
    unfolding startup_def
    by (intro returns_bind [OF getNextToken_returns]) simp
qed

lemma main_returns:
  "4 * length input + 9 \<le> n \<Longrightarrow> returns (\<lambda>_ _. True) (main strtod Folder n input)"
  unfolding main_def
  by (rule returns_bind [OF startup_returns], rule returns_bind [OF MainLoop_returns]) simp_all

subsection \<open>More budget never changes an answer\<close>

lemma settled_refl [simp]: "settled r r" "settled OutOfFuel r"
  by (simp_all add: settled_def)

lemma settled_bind:
  assumes "settled m m'" and "\<And>a s. settled (f a s) (f' a s)"
  shows "settled (bind m f) (bind m' f')"
  using assms by (cases m) (auto simp: settled_def)

lemma settled_trans: "settled r r' \<Longrightarrow> settled r' r'' \<Longrightarrow> settled r r''"
  by (auto simp: settled_def)

lemma settled_add:
  assumes "\<And>n. settled (f n) (f (Suc n))"
  shows "settled (f m) (f (m + k))"
  by (induction k) (auto intro: settled_trans assms)

lemma expression_settled:
  "(\<forall>s. settled (ParsePrimary strtod n s) (ParsePrimary strtod (Suc n) s)) \<and>
   (\<forall>s. settled (ParseParenExpr strtod n s) (ParseParenExpr strtod (Suc n) s)) \<and>
   (\<forall>s. settled (ParseIdentifierExpr strtod n s) (ParseIdentifierExpr strtod (Suc n) s)) \<and>
   (\<forall>s Args. settled (ParseArgs strtod n Args s) (ParseArgs strtod (Suc n) Args s)) \<and>
   (\<forall>s p l. settled (ParseBinOpRHS strtod n p l s) (ParseBinOpRHS strtod (Suc n) p l s)) \<and>
   (\<forall>s. settled (ParseExpression strtod n s) (ParseExpression strtod (Suc n) s))"
proof (induction n)
  case 0
  show ?case by simp
next
  case (Suc n)
  then have ih:
    "\<And>s. settled (ParsePrimary strtod n s) (ParsePrimary strtod (Suc n) s)"
    "\<And>s. settled (ParseParenExpr strtod n s) (ParseParenExpr strtod (Suc n) s)"
    "\<And>s. settled (ParseIdentifierExpr strtod n s) (ParseIdentifierExpr strtod (Suc n) s)"
    "\<And>s Args. settled (ParseArgs strtod n Args s) (ParseArgs strtod (Suc n) Args s)"
    "\<And>s p l. settled (ParseBinOpRHS strtod n p l s) (ParseBinOpRHS strtod (Suc n) p l s)"
    "\<And>s. settled (ParseExpression strtod n s) (ParseExpression strtod (Suc n) s)"
    by blast+
  note rules = settled_bind ih
  note [simp del] = ParsePrimary.simps ParseParenExpr.simps ParseIdentifierExpr.simps
    ParseArgs.simps ParseBinOpRHS.simps ParseExpression.simps
  have primary: "settled (ParsePrimary strtod (Suc n) s) (ParsePrimary strtod (Suc (Suc n)) s)" for s
    by (subst ParsePrimary.simps(2) [of _ "Suc n"], subst ParsePrimary.simps(2) [of _ n])
       (auto intro!: rules)
  have paren: "settled (ParseParenExpr strtod (Suc n) s) (ParseParenExpr strtod (Suc (Suc n)) s)" for s
    by (subst ParseParenExpr.simps(2) [of _ "Suc n"], subst ParseParenExpr.simps(2) [of _ n])
       (auto intro!: rules split: option.splits)
  have ident: "settled (ParseIdentifierExpr strtod (Suc n) s) (ParseIdentifierExpr strtod (Suc (Suc n)) s)" for s
    by (subst ParseIdentifierExpr.simps(2) [of _ "Suc n"], subst ParseIdentifierExpr.simps(2) [of _ n])
       (auto simp: Let_def intro!: rules split: option.splits)
  have args: "settled (ParseArgs strtod (Suc n) Args s) (ParseArgs strtod (Suc (Suc n)) Args s)" for s Args
    by (subst ParseArgs.simps(2) [of _ "Suc n"], subst ParseArgs.simps(2) [of _ n])
       (auto simp: Let_def intro!: rules split: option.splits)
  have binop: "settled (ParseBinOpRHS strtod (Suc n) p l s) (ParseBinOpRHS strtod (Suc (Suc n)) p l s)" for s p l
    by (subst ParseBinOpRHS.simps(2) [of _ "Suc n"], subst ParseBinOpRHS.simps(2) [of _ n])
       (auto simp: Let_def case_prod_beta intro!: rules split: option.splits)
  have expr: "settled (ParseExpression strtod (Suc n) s) (ParseExpression strtod (Suc (Suc n)) s)" for s
    by (subst ParseExpression.simps(2) [of _ "Suc n"], subst ParseExpression.simps(2) [of _ n])
       (auto intro!: rules split: option.splits)
  from primary paren ident args binop expr show ?case by blast
qed


lemma ParseExpression_settled:
  "settled (ParseExpression strtod n s) (ParseExpression strtod (Suc n) s)"
  using expression_settled [of strtod n] by blast

lemma ParsePrototypeArgs_settled:
  "settled (ParsePrototypeArgs strtod n ArgNames s) (ParsePrototypeArgs strtod (Suc n) ArgNames s)"
proof (induction n arbitrary: ArgNames s)
  case 0
  show ?case by simp
next
  case (Suc n)
  show ?case
    by (subst ParsePrototypeArgs.simps(2) [of _ "Suc n"], subst ParsePrototypeArgs.simps(2) [of _ n])
       (auto simp del: ParsePrototypeArgs.simps intro!: settled_bind Suc.IH)
qed

lemma ParsePrototype_settled:
  "settled (ParsePrototype strtod n s) (ParsePrototype strtod (Suc n) s)"
  unfolding ParsePrototype_def Let_def
  by (auto simp del: ParsePrototypeArgs.simps intro!: settled_bind ParsePrototypeArgs_settled)

lemma ParseDefinition_settled:
  "settled (ParseDefinition strtod n s) (ParseDefinition strtod (Suc n) s)"
  unfolding ParseDefinition_def
  by (auto simp del: ParseExpression.simps
        intro!: settled_bind ParsePrototype_settled ParseExpression_settled split: option.splits)

lemma ParseTopLevelExpr_settled:
  "settled (ParseTopLevelExpr strtod n s) (ParseTopLevelExpr strtod (Suc n) s)"
  unfolding ParseTopLevelExpr_def
  by (auto simp del: ParseExpression.simps intro!: settled_bind ParseExpression_settled)

lemma HandleDefinition_settled:
  "settled (HandleDefinition strtod Folder n s) (HandleDefinition strtod Folder (Suc n) s)"
  unfolding HandleDefinition_def
  by (auto intro!: settled_bind ParseDefinition_settled)

lemma HandleExtern_settled:
  "settled (HandleExtern strtod n s) (HandleExtern strtod (Suc n) s)"
  unfolding HandleExtern_def ParseExtern_def
  by (auto intro!: settled_bind ParsePrototype_settled)

lemma HandleTopLevelExpression_settled:
  "settled (HandleTopLevelExpression strtod Folder n s)
     (HandleTopLevelExpression strtod Folder (Suc n) s)"
  unfolding HandleTopLevelExpression_def
  by (auto intro!: settled_bind ParseTopLevelExpr_settled)

lemma MainLoop_settled:
  "settled (MainLoop strtod Folder n s) (MainLoop strtod Folder (Suc n) s)"
proof (induction n arbitrary: s)
  case 0
  show ?case by simp
next
  case (Suc n)
  show ?case
    by (subst MainLoop.simps(2) [of _ _ "Suc n"], subst MainLoop.simps(2) [of _ _ n])
       (auto simp del: MainLoop.simps intro!: settled_bind Suc.IH HandleDefinition_settled
          HandleExtern_settled HandleTopLevelExpression_settled)
qed

lemma main_settled:
  "settled (main strtod Folder n input) (main strtod Folder (Suc n) input)"
  unfolding main_def
  by (auto simp del: MainLoop.simps intro!: settled_bind MainLoop_settled)

lemma main_budget:
  assumes "4 * length input + 9 \<le> n"
  shows "main strtod Folder n input = main strtod Folder (4 * length input + 9) input"
    and "main strtod Folder n input \<noteq> OutOfFuel"
proof -
  let ?b = "4 * length input + 9"
  from assms obtain k where n: "n = ?b + k" by (auto simp: le_iff_add)
  have "settled (main strtod Folder ?b input) (main strtod Folder (?b + k) input)"
    using main_settled by (rule settled_add [where f = "\<lambda>n. main strtod Folder n input"])
  moreover have "main strtod Folder ?b input \<noteq> OutOfFuel"
    using main_returns [of input ?b strtod Folder] by auto
  ultimately show "main strtod Folder n input = main strtod Folder ?b input"
    and "main strtod Folder n input \<noteq> OutOfFuel"
    unfolding n by (auto simp: settled_def)
qed

subsection \<open>The module under a definition\<close>

lemma eraseFromParent_update_function [simp]:
  "eraseFromParent F (update_function F g M) = eraseFromParent F M"
proof -
  have "filter (\<lambda>(F1, f). F1 \<noteq> F) (map (\<lambda>(F1, f). if F1 = F then (F1, g f) else (F1, f)) xs) =
        filter (\<lambda>(F1, f). F1 \<noteq> F) xs" for xs
    by (induction xs) auto
  then show ?thesis by (simp add: eraseFromParent_def update_function_def)
qed

lemma eraseFromParent_insert_blocks [simp]:
  "eraseFromParent F (insert_blocks (Some (F, BB)) Is M) = eraseFromParent F M"
  by (simp add: insert_blocks_def)

lemma FunctionAST_codegen_cases:
  assumes "FunctionAST_codegen Folder fn s = (r, s')"
  shows "\<exists>F M1.
      ((getFunction (getName (Proto fn)) (TheModule s) = Some F \<and> M1 = TheModule s) \<or>
       (getFunction (getName (Proto fn)) (TheModule s) = None \<and>
        (F, M1) = Function_Create (getName (Proto fn)) (getArgs (Proto fn)) (TheModule s))) \<and>
      ((blocks M1 F \<noteq> [] \<and> r = None \<and> TheModule s' = M1) \<or>
       (blocks M1 F = [] \<and> r = Some F \<and>
        (\<exists>Is v. (\<forall>I \<in> set Is. \<not> isTerminator I) \<and>
           TheModule s' =
             insert_blocks (Some (F, 0)) (Is @ [Ret v])
               (update_function F (\<lambda>f. f\<lparr>fn_blocks := fn_blocks f @ [[]]\<rparr>) M1))) \<or>
       (blocks M1 F = [] \<and> r = None \<and> TheModule s' = eraseFromParent F M1))"
proof -
  obtain F s1 where t: "(case getFunction (getName (Proto fn)) (TheModule s) of
              Some F \<Rightarrow> (F, s)
            | None \<Rightarrow> PrototypeAST_codegen (Proto fn) s) = (F, s1)"
    by force
  let ?M1 = "TheModule s1"
  have target: "(getFunction (getName (Proto fn)) (TheModule s) = Some F \<and> ?M1 = TheModule s) \<or>
       (getFunction (getName (Proto fn)) (TheModule s) = None \<and>
        (F, ?M1) = Function_Create (getName (Proto fn)) (getArgs (Proto fn)) (TheModule s))"
    using t by (auto simp: PrototypeAST_codegen_def case_prod_beta split: option.splits)
  show ?thesis
  proof (cases "blocks ?M1 F = []")
    case False
    with assms t have "r = None \<and> TheModule s' = ?M1"
      by (auto simp: FunctionAST_codegen_def LogError_def)
    with False target show ?thesis by blast
  next
    case True
    let ?M2 = "update_function F (\<lambda>f. f\<lparr>fn_blocks := fn_blocks f @ [[]]\<rparr>) ?M1"
    let ?s3 = "bind_arguments F (s1\<lparr>TheModule := ?M2, Builder := Some (F, 0)\<rparr>)"
    obtain x s4 where c: "codegen Folder (Body fn) ?s3 = (x, s4)" by force
    from codegen_effect(1) [of ?s3 Folder "Body fn"] c
    obtain Is where Is: "\<forall>I \<in> set Is. \<not> isTerminator I"
        "TheModule s4 = insert_blocks (Some (F, 0)) Is ?M2" "Builder s4 = Some (F, 0)"
      by (auto simp: codegen_effect_def bind_arguments_def)
    show ?thesis
    proof (cases x)
      case None
      with assms t True c have "r = None \<and> TheModule s' = eraseFromParent F (TheModule s4)"
        by (auto simp: FunctionAST_codegen_def BasicBlock_Create_def Let_def)
      moreover have "eraseFromParent F (TheModule s4) = eraseFromParent F ?M1"
        unfolding Is(2) by simp
      ultimately show ?thesis using True target by auto
    next
      case (Some v)
      with assms t True c have "r = Some F \<and> TheModule s' = insert_at (Builder s4) (Ret v) (TheModule s4)"
        by (auto simp: FunctionAST_codegen_def BasicBlock_Create_def Let_def InsertRaw_def)
      then have "r = Some F \<and> TheModule s' = insert_blocks (Some (F, 0)) (Is @ [Ret v]) ?M2"
        by (simp add: Is insert_at_blocks insert_blocks_append)
      with True target Is(1) show ?thesis by blast
    qed
  qed
qed

lemma keys_update_function [simp]:
  "map fst (Functions (update_function F g M)) = map fst (Functions M)"
  "NextAddr (update_function F g M) = NextAddr M"
  by (simp_all add: update_function_def case_prod_beta o_def if_distrib cong: if_cong)

lemma keys_insert_blocks [simp]:
  "map fst (Functions (insert_blocks ip Is M)) = map fst (Functions M)"
  "NextAddr (insert_blocks ip Is M) = NextAddr M"
  by (cases ip; auto simp: insert_blocks_def)+

lemma wf_module_update_function [simp]:
  "wf_module (update_function F g M) = wf_module M"
  unfolding wf_module_def by (simp flip: set_map)

lemma wf_module_insert_blocks [simp]:
  "wf_module (insert_blocks ip Is M) = wf_module M"
  unfolding wf_module_def by (simp flip: set_map)

lemma wf_module_eraseFromParent: "wf_module M \<Longrightarrow> wf_module (eraseFromParent F M)"
  unfolding wf_module_def eraseFromParent_def
  by (auto simp: distinct_map_filter)

lemma wf_module_Function_Create:
  "wf_module M \<Longrightarrow> wf_module (snd (Function_Create N As M))"
  unfolding wf_module_def Function_Create_def
  by (auto simp: less_Suc_eq)

lemma member_update_function:
  "((F', f') \<in> set (Functions (update_function F g M))) =
     ((F' \<noteq> F \<and> (F', f') \<in> set (Functions M)) \<or>
      (F' = F \<and> (\<exists>f. (F, f) \<in> set (Functions M) \<and> f' = g f)))"
proof -
  have "((F', f') \<in> set (map (\<lambda>(F1, f). if F1 = F then (F1, g f) else (F1, f)) xs)) =
     ((F' \<noteq> F \<and> (F', f') \<in> set xs) \<or> (F' = F \<and> (\<exists>f. (F, f) \<in> set xs \<and> f' = g f)))" for xs
    by (induction xs) (auto split: if_splits)
  then show ?thesis by (simp add: update_function_def)
qed

lemma member_eraseFromParent:
  "((F', f') \<in> set (Functions (eraseFromParent F M))) = (F' \<noteq> F \<and> (F', f') \<in> set (Functions M))"
  by (auto simp: eraseFromParent_def)

lemma function_at_member:
  "wf_module M \<Longrightarrow> (function_at M F = Some f) = ((F, f) \<in> set (Functions M))"
  by (simp add: wf_module_def function_at_def)

lemma getFunction_member:
  "getFunction N M = Some F \<Longrightarrow> \<exists>f. (F, f) \<in> set (Functions M) \<and> fn_name f = N \<and> N \<noteq> []"
  by (auto simp: getFunction_def find_Some_iff split: if_splits) (metis nth_mem)

lemma complete_body:
  assumes "\<forall>I \<in> set Is. \<not> isTerminator I"
  shows "\<not> verifyFunction (f\<lparr>fn_blocks := [Is @ [Ret v]]\<rparr>)"
  using assms by (simp add: verifyFunction_def isTerminator_def)

lemma FunctionAST_codegen_wf:
  assumes wf: "wf_module (TheModule s)"
      and cg: "FunctionAST_codegen Folder fn s = (r, s')"
  shows "(\<forall>(F, f) \<in> set (Functions (TheModule s')).
            (F, f) \<in> set (Functions (TheModule s)) \<or> (fn_blocks f \<noteq> [] \<and> \<not> verifyFunction f)) \<and>
         (r = None \<longrightarrow> set (Functions (TheModule s')) \<subseteq> set (Functions (TheModule s))) \<and>
         (\<forall>F. r = Some F \<longrightarrow>
            (\<exists>f. function_at (TheModule s') F = Some f \<and> fn_name f = getName (Proto fn) \<and>
                 fn_blocks f \<noteq> [] \<and> \<not> verifyFunction f)) \<and>
         (\<forall>(F, f) \<in> set (Functions (TheModule s')).
            fn_name f = getName (Proto fn) \<or>
            (\<exists>f0. (F, f0) \<in> set (Functions (TheModule s)) \<and> fn_name f0 = fn_name f)) \<and>
         wf_module (TheModule s')"
proof -
  let ?M = "TheModule s"
  let ?N = "getName (Proto fn)"
  let ?h = "\<lambda>f :: 'a Function. f\<lparr>fn_blocks := fn_blocks f @ [[]]\<rparr>"
  from FunctionAST_codegen_cases [OF cg] obtain F M1 where
    target: "(getFunction ?N ?M = Some F \<and> M1 = ?M) \<or>
       (getFunction ?N ?M = None \<and> (F, M1) = Function_Create ?N (getArgs (Proto fn)) ?M)"
    and outcome: "(blocks M1 F \<noteq> [] \<and> r = None \<and> TheModule s' = M1) \<or>
       (blocks M1 F = [] \<and> r = Some F \<and>
        (\<exists>Is v. (\<forall>I \<in> set Is. \<not> isTerminator I) \<and>
           TheModule s' = insert_blocks (Some (F, 0)) (Is @ [Ret v]) (update_function F ?h M1))) \<or>
       (blocks M1 F = [] \<and> r = None \<and> TheModule s' = eraseFromParent F M1)"
    by blast
  have wf1: "wf_module M1"
    using target wf wf_module_Function_Create [OF wf, of ?N "getArgs (Proto fn)"]
    by (metis snd_conv)
  have old: "(F', f') \<in> set (Functions ?M)" if "(F', f') \<in> set (Functions M1)" "F' \<noteq> F" for F' f'
    using target that by (auto simp: Function_Create_def)
  have new: "fn_name f = ?N" if "(F, f) \<in> set (Functions M1)" for f
  proof -
    from target show ?thesis
    proof
      assume a: "getFunction ?N ?M = Some F \<and> M1 = ?M"
      then obtain f1 where "(F, f1) \<in> set (Functions ?M)" "fn_name f1 = ?N"
        using getFunction_member by blast
      with a that wf show ?thesis
        by (metis function_at_member option.inject)
    next
      assume a: "getFunction ?N ?M = None \<and> (F, M1) = Function_Create ?N (getArgs (Proto fn)) ?M"
      then have "F = NextAddr ?M" by (simp add: Function_Create_def)
      with wf have "(F, f) \<notin> set (Functions ?M)"
        by (force simp: wf_module_def)
      with a that show ?thesis by (auto simp: Function_Create_def)
    qed
  qed
  have present: "\<exists>f. (F, f) \<in> set (Functions M1)"
    using target getFunction_member [of ?N ?M F] by (auto simp: Function_Create_def)
  have fresh_empty: "blocks M1 F = []"
    if "getFunction ?N ?M = None \<and> (F, M1) = Function_Create ?N (getArgs (Proto fn)) ?M"
  proof -
    from that have "(F, \<lparr>fn_name = ?N, fn_args = getArgs (Proto fn), fn_blocks = []\<rparr>) \<in> set (Functions M1)"
      by (simp add: Function_Create_def)
    then have "function_at M1 F = Some \<lparr>fn_name = ?N, fn_args = getArgs (Proto fn), fn_blocks = []\<rparr>"
      using wf1 by (simp add: function_at_member)
    then show ?thesis by (simp add: blocks_def)
  qed
  from outcome show ?thesis
  proof (elim disjE conjE exE)
    assume a: "blocks M1 F \<noteq> []" "r = None" "TheModule s' = M1"
    with target fresh_empty have "M1 = ?M" by blast
    with a wf show ?thesis by auto
  next
    fix Is v
    assume a: "blocks M1 F = []" "r = Some F" "\<forall>I \<in> set Is. \<not> isTerminator I"
      "TheModule s' = insert_blocks (Some (F, 0)) (Is @ [Ret v]) (update_function F ?h M1)"
    let ?g = "\<lambda>f :: 'a Function. f\<lparr>fn_blocks := (fn_blocks f @ [[]])[0 := (fn_blocks f @ [[]]) ! 0 @ (Is @ [Ret v])]\<rparr>"
    have M': "TheModule s' = update_function F ?g M1"
      unfolding a(4) by (simp add: insert_blocks_def update_function_twice)
    have g: "?g f = f\<lparr>fn_blocks := [Is @ [Ret v]]\<rparr>" if "(F, f) \<in> set (Functions M1)" for f
    proof -
      from that wf1 have "function_at M1 F = Some f" by (simp add: function_at_member)
      with a(1) have "fn_blocks f = []" by (simp add: blocks_def)
      then show ?thesis by simp
    qed
    have mem: "((F', f') \<in> set (Functions (TheModule s'))) =
        ((F' \<noteq> F \<and> (F', f') \<in> set (Functions M1)) \<or>
         (F' = F \<and> (\<exists>f. (F, f) \<in> set (Functions M1) \<and> f' = f\<lparr>fn_blocks := [Is @ [Ret v]]\<rparr>)))" for F' f'
      unfolding M' member_update_function using g by metis
    have wf': "wf_module (TheModule s')"
      unfolding M' using wf1 by simp
    have 1: "\<forall>(F', f') \<in> set (Functions (TheModule s')).
            (F', f') \<in> set (Functions ?M) \<or> (fn_blocks f' \<noteq> [] \<and> \<not> verifyFunction f')"
      using old complete_body [OF a(3)] by (auto simp: mem)
    have 3: "\<exists>f. function_at (TheModule s') F = Some f \<and> fn_name f = ?N \<and>
                 fn_blocks f \<noteq> [] \<and> \<not> verifyFunction f"
    proof -
      from present obtain f where f: "(F, f) \<in> set (Functions M1)" by blast
      then have "(F, f\<lparr>fn_blocks := [Is @ [Ret v]]\<rparr>) \<in> set (Functions (TheModule s'))"
        by (auto simp: mem)
      then have "function_at (TheModule s') F = Some (f\<lparr>fn_blocks := [Is @ [Ret v]]\<rparr>)"
        using wf' by (simp add: function_at_member)
      then show ?thesis
        using new [OF f] complete_body [OF a(3)] by simp
    qed
    have 4: "\<forall>(F', f') \<in> set (Functions (TheModule s')).
            fn_name f' = ?N \<or> (\<exists>f0. (F', f0) \<in> set (Functions ?M) \<and> fn_name f0 = fn_name f')"
    proof (clarify)
      fix F' f'
      assume in': "(F', f') \<in> set (Functions (TheModule s'))"
        and no: "\<not> (\<exists>f0. (F', f0) \<in> set (Functions ?M) \<and> fn_name f0 = fn_name f')"
      show "fn_name f' = ?N"
      proof (cases "F' = F")
        case True
        with in' obtain f where "(F, f) \<in> set (Functions M1)" "f' = f\<lparr>fn_blocks := [Is @ [Ret v]]\<rparr>"
          by (auto simp: mem)
        with new show ?thesis by simp
      next
        case False
        with in' have "(F', f') \<in> set (Functions M1)" by (simp add: mem)
        with False old no show ?thesis by blast
      qed
    qed
    from 1 3 4 wf' a(2) show ?thesis by simp
  next
    assume a: "blocks M1 F = []" "r = None" "TheModule s' = eraseFromParent F M1"
    have "wf_module (TheModule s')"
      unfolding a(3) using wf1 by (rule wf_module_eraseFromParent)
    moreover have "set (Functions (TheModule s')) \<subseteq> set (Functions ?M)"
      using old by (auto simp: a(3) member_eraseFromParent)
    ultimately show ?thesis using a(2) by auto
  qed
qed

lemma anonymous_lowering:
  assumes wf: "wf_module (TheModule s)"
      and cg: "FunctionAST_codegen Folder (FunctionAST (PrototypeAST [] []) e) s = (r, s')"
  shows "Functions (case r of None \<Rightarrow> TheModule s'
                    | Some FnIR \<Rightarrow> eraseFromParent FnIR (TheModule s')) = Functions (TheModule s)"
    and "wf_module (case r of None \<Rightarrow> TheModule s'
                    | Some FnIR \<Rightarrow> eraseFromParent FnIR (TheModule s'))"
proof -
  let ?M = "TheModule s"
  let ?h = "\<lambda>f :: 'a Function. f\<lparr>fn_blocks := fn_blocks f @ [[]]\<rparr>"
  have none: "getFunction [] ?M = None" by (simp add: getFunction_def)
  from FunctionAST_codegen_cases [OF cg] none obtain F M1 where
    target: "(F, M1) = Function_Create [] [] ?M"
    and outcome: "(blocks M1 F \<noteq> [] \<and> r = None \<and> TheModule s' = M1) \<or>
       (blocks M1 F = [] \<and> r = Some F \<and>
        (\<exists>Is v. TheModule s' = insert_blocks (Some (F, 0)) (Is @ [Ret v]) (update_function F ?h M1))) \<or>
       (blocks M1 F = [] \<and> r = None \<and> TheModule s' = eraseFromParent F M1)"
    by auto
  have F: "F = NextAddr ?M" and M1: "Functions M1 = Functions ?M @ [(F, \<lparr>fn_name = [], fn_args = [], fn_blocks = []\<rparr>)]"
    using target by (simp_all add: Function_Create_def)
  have wf1: "wf_module M1"
    using wf_module_Function_Create [OF wf, of "[]" "[]"] target by (metis snd_conv)
  have "function_at M1 F = Some \<lparr>fn_name = [], fn_args = [], fn_blocks = []\<rparr>"
    using wf1 M1 by (simp add: function_at_member)
  then have empty: "blocks M1 F = []" by (simp add: blocks_def)
  have "filter (\<lambda>(F1, f). F1 \<noteq> F) (Functions ?M) = Functions ?M"
    using wf F by (auto simp: wf_module_def intro!: filter_True)
  then have erase: "Functions (eraseFromParent F M1) = Functions ?M"
    by (simp add: eraseFromParent_def M1)
  have res: "(case r of None \<Rightarrow> TheModule s' | Some FnIR \<Rightarrow> eraseFromParent FnIR (TheModule s')) =
      eraseFromParent F M1"
    using outcome empty by auto
  show "Functions (case r of None \<Rightarrow> TheModule s'
                    | Some FnIR \<Rightarrow> eraseFromParent FnIR (TheModule s')) = Functions (TheModule s)"
    unfolding res by (rule erase)
  show "wf_module (case r of None \<Rightarrow> TheModule s'
                    | Some FnIR \<Rightarrow> eraseFromParent FnIR (TheModule s'))"
    unfolding res using wf1 by (rule wf_module_eraseFromParent)
qed

lemma sound_invariant:
  fixes strtod :: "string \<Rightarrow> 'd"
  defines "I \<equiv> \<lambda>s :: 'd state. sound_module (TheModule s)"
  shows "I s \<Longrightarrow> post (\<lambda>_. I) (\<lambda>_. True) (getNextToken strtod s)"
    and "I s \<Longrightarrow> I (s\<lparr>out := es\<rparr>)"
    and "I s \<Longrightarrow> I (snd (getTokPrecedence s))"
    and "I s \<Longrightarrow> getName (Proto fn) = b @ ''_def'' \<Longrightarrow> I (snd (FunctionAST_codegen Folder fn s))"
    and "I s \<Longrightarrow> getName p = b @ ''_ext'' \<Longrightarrow> I (snd (PrototypeAST_codegen p s))"
    and "I s \<Longrightarrow> FunctionAST_codegen Folder (FunctionAST (PrototypeAST [] []) e) s = (r, s') \<Longrightarrow>
           I (case r of None \<Rightarrow> s'
              | Some FnIR \<Rightarrow> s'\<lparr>TheModule := eraseFromParent FnIR (TheModule s')\<rparr>)"
    and "I (InitializeModule s)"
proof -
  show "post (\<lambda>_. I) (\<lambda>_. True) (getNextToken strtod s)" if "I s"
    by (rule post_mono [OF getNextToken_post [where s = s]])
       (use that in \<open>auto simp: I_def lexer_step_def\<close>)
  show "I (s\<lparr>out := es\<rparr>)" if "I s"
    using that by (simp add: I_def)
  show "I (snd (getTokPrecedence s))" if "I s"
    using that by (auto simp: I_def getTokPrecedence_def split: option.splits)
  show "I (snd (FunctionAST_codegen Folder fn s))"
    if "I s" and n: "getName (Proto fn) = b @ ''_def''"
  proof -
    obtain r s' where cg: "FunctionAST_codegen Folder fn s = (r, s')" by force
    from that have wf: "wf_module (TheModule s)" by (simp add: I_def sound_module_def)
    note w = FunctionAST_codegen_wf [OF wf cg]
    have old: "\<not> verifyFunction f0 \<and> (\<exists>b. fn_name f0 = b @ ''_def'' \<or> fn_name f0 = b @ ''_ext'') \<and>
         (fn_blocks f0 = [] \<longrightarrow> (\<exists>b. fn_name f0 = b @ ''_ext''))"
      if "(F0, f0) \<in> set (Functions (TheModule s))" for F0 f0
      using \<open>I s\<close> that unfolding I_def sound_module_def by auto
    have "\<not> verifyFunction f \<and> (\<exists>b. fn_name f = b @ ''_def'' \<or> fn_name f = b @ ''_ext'') \<and>
         (fn_blocks f = [] \<longrightarrow> (\<exists>b. fn_name f = b @ ''_ext''))"
      if m: "(F, f) \<in> set (Functions (TheModule s'))" for F f
    proof -
      from w m have a: "(F, f) \<in> set (Functions (TheModule s)) \<or> (fn_blocks f \<noteq> [] \<and> \<not> verifyFunction f)"
        and b: "fn_name f = getName (Proto fn) \<or>
            (\<exists>f0. (F, f0) \<in> set (Functions (TheModule s)) \<and> fn_name f0 = fn_name f)"
        by blast+
      from b have "\<exists>b. fn_name f = b @ ''_def'' \<or> fn_name f = b @ ''_ext''"
      proof
        assume "fn_name f = getName (Proto fn)"
        with n show ?thesis by auto
      next
        assume "\<exists>f0. (F, f0) \<in> set (Functions (TheModule s)) \<and> fn_name f0 = fn_name f"
        then obtain f0 where "(F, f0) \<in> set (Functions (TheModule s))" "fn_name f0 = fn_name f"
          by blast
        with old [of F f0] show ?thesis by simp
      qed
      with a old [of F f] show ?thesis by blast
    qed
    with w show ?thesis
      by (auto simp: I_def sound_module_def cg)
  qed
  show "I (snd (PrototypeAST_codegen p s))" if "I s" and n: "getName p = b @ ''_ext''"
  proof -
    from that have wf: "wf_module (TheModule s)" by (simp add: I_def sound_module_def)
    from wf_module_Function_Create [OF wf, of "getName p" "getArgs p"]
    have "wf_module (TheModule (snd (PrototypeAST_codegen p s)))"
      by (simp add: PrototypeAST_codegen_def case_prod_beta)
    moreover have "Functions (TheModule (snd (PrototypeAST_codegen p s))) =
        Functions (TheModule s) @
          [(NextAddr (TheModule s), \<lparr>fn_name = getName p, fn_args = getArgs p, fn_blocks = []\<rparr>)]"
      by (simp add: PrototypeAST_codegen_def Function_Create_def)
    ultimately show ?thesis
      using \<open>I s\<close> n by (auto simp: I_def sound_module_def verifyFunction_def)
  qed
  show "I (case r of None \<Rightarrow> s'
              | Some FnIR \<Rightarrow> s'\<lparr>TheModule := eraseFromParent FnIR (TheModule s')\<rparr>)"
    if "I s" and cg: "FunctionAST_codegen Folder (FunctionAST (PrototypeAST [] []) e) s = (r, s')"
  proof -
    from that have wf: "wf_module (TheModule s)" by (simp add: I_def sound_module_def)
    have "TheModule (case r of None \<Rightarrow> s'
              | Some FnIR \<Rightarrow> s'\<lparr>TheModule := eraseFromParent FnIR (TheModule s')\<rparr>) =
          (case r of None \<Rightarrow> TheModule s' | Some FnIR \<Rightarrow> eraseFromParent FnIR (TheModule s'))"
      by (simp split: option.splits)
    with anonymous_lowering [OF wf cg] \<open>I s\<close> show ?thesis
      by (simp add: I_def sound_module_def)
  qed
  show "I (InitializeModule s)"
    by (simp add: I_def sound_module_def wf_module_def InitializeModule_def)
qed

lemma main_sound:
  fixes strtod :: "string \<Rightarrow> 'd"
  shows "sound_module (TheModule s) \<Longrightarrow>
           post (\<lambda>_ s'. sound_module (TheModule s')) (\<lambda>_. True) (MainLoop strtod Folder n s)"
    and "post (\<lambda>_ s'. sound_module (TheModule s')) (\<lambda>_. True) (main strtod Folder n input)"
proof -
  let ?I = "\<lambda>s :: 'd state. sound_module (TheModule s)"
  note inv = sound_invariant
  show "post (\<lambda>_. ?I) (\<lambda>_. True) (MainLoop strtod Folder n s)" if "?I s"
    by (rule MainLoop_invariant [where I = ?I and E = "\<lambda>_. True"];
        (rule inv that; assumption))
  have st: "?I (install_operators (initial_state strtod input))"
    by (simp add: install_operators_def initial_state_def sound_module_def wf_module_def)
  show "post (\<lambda>_. ?I) (\<lambda>_. True) (main strtod Folder n input)"
    by (rule main_invariant(2) [where I = ?I and E = "\<lambda>_. True"];
        (rule inv st; assumption))
qed

lemma main_prints_module:
  assumes "main strtod Folder n input = Done v s'"
  shows "\<exists>es. out s' = es @ [PrintModule (TheModule s')]"
proof (cases "startup strtod input")
  case (Done u s0)
  show ?thesis
  proof (cases "MainLoop strtod Folder n s0")
    case (Done w s1)
    with assms \<open>startup strtod input = Done u s0\<close>
    have "s' = s1\<lparr>out := out s1 @ [PrintModule (TheModule s1)]\<rparr>"
      by (simp add: main_def)
    then show ?thesis by simp
  next
    case (Exited s1)
    with assms \<open>startup strtod input = Done u s0\<close> show ?thesis by (simp add: main_def)
  next
    case OutOfFuel
    with assms \<open>startup strtod input = Done u s0\<close> show ?thesis by (simp add: main_def)
  qed
next
  case (Exited s0)
  with assms show ?thesis by (simp add: main_def)
next
  case OutOfFuel
  with assms show ?thesis by (simp add: main_def)
qed

lemma HandleTopLevelExpression_module:
  fixes strtod :: "string \<Rightarrow> 'd"
  assumes wf: "wf_module (TheModule s)"
  shows "post (\<lambda>_ s'. wf_module (TheModule s') \<and> Functions (TheModule s') = Functions (TheModule s))
           (\<lambda>_. True) (HandleTopLevelExpression strtod Folder n s)"
proof -
  let ?I = "\<lambda>s' :: 'd state. wf_module (TheModule s') \<and> Functions (TheModule s') = Functions (TheModule s)"
  have tok: "post (\<lambda>_. ?I) (\<lambda>_. True) (getNextToken strtod s1)" if "?I s1" for s1
    by (rule post_mono [OF getNextToken_post [where s = s1]])
       (use that in \<open>auto simp: lexer_step_def\<close>)
  have out: "?I (s1\<lparr>out := es\<rparr>)" if "?I s1" for s1 es
    using that by simp
  have prec: "?I (snd (getTokPrecedence s1))" if "?I s1" for s1
    using that by (auto simp: getTokPrecedence_def split: option.splits)
  have top: "?I (case r of None \<Rightarrow> s'
              | Some FnIR \<Rightarrow> s'\<lparr>TheModule := eraseFromParent FnIR (TheModule s')\<rparr>)"
    if "?I s1" and cg: "FunctionAST_codegen Folder (FunctionAST (PrototypeAST [] []) e) s1 = (r, s')"
    for s1 e r s'
  proof -
    from that have wf1: "wf_module (TheModule s1)" by simp
    have "TheModule (case r of None \<Rightarrow> s'
              | Some FnIR \<Rightarrow> s'\<lparr>TheModule := eraseFromParent FnIR (TheModule s')\<rparr>) =
          (case r of None \<Rightarrow> TheModule s' | Some FnIR \<Rightarrow> eraseFromParent FnIR (TheModule s'))"
      by (simp split: option.splits)
    with anonymous_lowering [OF wf1 cg] that(1) show ?thesis by simp
  qed
  have s: "?I s" using wf by simp
  show ?thesis
    by (rule HandleTopLevelExpression_invariant [where I = ?I and E = "\<lambda>_. True"];
        (rule tok out prec top s; assumption))
qed

lemma ParseTopLevelExpr_module:
  fixes strtod :: "string \<Rightarrow> 'd"
  shows "post (\<lambda>_ s'. TheModule s' = TheModule s) (\<lambda>_. True) (ParseTopLevelExpr strtod n s)"
proof -
  let ?I = "\<lambda>s' :: 'd state. TheModule s' = TheModule s"
  have tok: "post (\<lambda>_. ?I) (\<lambda>_. True) (getNextToken strtod s1)" if "?I s1" for s1
    by (rule post_mono [OF getNextToken_post [where s = s1]])
       (use that in \<open>auto simp: lexer_step_def\<close>)
  have log: "?I (LogError m s1)" if "?I s1" for s1 m
    using that by (simp add: LogError_def)
  have prec: "?I (snd (getTokPrecedence s1))" if "?I s1" for s1
    using that by (auto simp: getTokPrecedence_def split: option.splits)
  have s: "?I s" by simp
  show ?thesis
    by (rule post_mono [OF toplevel_invariant [where I = ?I and E = "\<lambda>_. True"]];
        (rule tok log prec s; assumption)?) auto
qed

subsection \<open>No call finds its callee\<close>

lemma isalnum_unmangled: "isalnum c \<Longrightarrow> char_of c \<noteq> CHR ''_''"
proof
  assume a: "isalnum c" and "char_of c = CHR ''_''"
  then have "of_char (char_of c :: char) = (95 :: int)" by simp
  then have "c mod 256 = 95" by (simp add: of_char_of)
  with a show False by (auto simp: isalnum_def isalpha_def isdigit_def)
qed

lemma IdentifierStr_getchar [simp]: "IdentifierStr (getchar s) = IdentifierStr s"
  by (simp add: getchar_def split: list.splits)

lemma IdentifierStr_skip_whitespace [simp]: "IdentifierStr (skip_whitespace s) = IdentifierStr s"
proof (induction s rule: skip_whitespace.induct)
  case (1 s)
  then show ?case by (subst skip_whitespace.simps) simp
qed

lemma IdentifierStr_skip_comment [simp]: "IdentifierStr (skip_comment s) = IdentifierStr s"
proof (induction s rule: skip_comment.induct)
  case (1 s)
  then show ?case by (subst skip_comment.simps) (simp add: Let_def)
qed

lemma IdentifierStr_read_number [simp]:
  "IdentifierStr (snd (read_number NumStr hasDecimal decimalError s)) = IdentifierStr s"
proof (induction NumStr hasDecimal decimalError s rule: read_number.induct)
  case (1 NumStr hasDecimal decimalError s)
  then show ?case by (subst read_number.simps) (simp add: Let_def)
qed

lemma unmangled_read_identifier:
  "unmangled (IdentifierStr s) \<Longrightarrow> unmangled (IdentifierStr (read_identifier s))"
proof (induction s rule: read_identifier.induct)
  case (1 s)
  let ?s1 = "getchar s"
  let ?s2 = "?s1\<lparr>IdentifierStr := IdentifierStr ?s1 @ [char_of (LastChar ?s1)]\<rparr>"
  show ?case
  proof (cases "isalnum (LastChar ?s1)")
    case True
    then have "unmangled (IdentifierStr ?s2)"
      using "1.prems" isalnum_unmangled [of "LastChar ?s1"] by (auto simp: unmangled_def)
    with True "1.IH" [OF refl True] show ?thesis
      by (subst read_identifier.simps) (simp add: Let_def)
  next
    case False
    with "1.prems" show ?thesis
      by (subst read_identifier.simps) (simp add: Let_def)
  qed
qed

lemma unmangled_gettok:
  "unmangled (IdentifierStr s) \<Longrightarrow>
   post (\<lambda>_ s'. unmangled (IdentifierStr s')) (\<lambda>_. True) (gettok strtod s)"
proof (induction strtod s rule: gettok.induct)
  case (1 strtod s0)
  let ?s = "skip_whitespace s0"
  consider (ident) "isalpha (LastChar ?s)"
    | (number) "\<not> isalpha (LastChar ?s)" "isdigit (LastChar ?s) \<or> LastChar ?s = of_char CHR ''.''"
    | (comment) "\<not> isalpha (LastChar ?s)" "\<not> (isdigit (LastChar ?s) \<or> LastChar ?s = of_char CHR ''.'')"
        "LastChar ?s = of_char CHR ''#'' \<and> LastChar (skip_comment ?s) \<noteq> EOF"
    | (other) "\<not> isalpha (LastChar ?s)" "\<not> (isdigit (LastChar ?s) \<or> LastChar ?s = of_char CHR ''.'')"
        "\<not> (LastChar ?s = of_char CHR ''#'' \<and> LastChar (skip_comment ?s) \<noteq> EOF)"
    by blast
  then show ?case
  proof cases
    case ident
    let ?s1 = "read_identifier (?s\<lparr>IdentifierStr := [char_of (LastChar ?s)]\<rparr>)"
    from ident have "gettok strtod s0 =
        (if IdentifierStr ?s1 = ''def'' then Done tok_def ?s1
         else if IdentifierStr ?s1 = ''extern'' then Done tok_extern ?s1
         else Done tok_identifier ?s1)"
      by (subst gettok.simps) (simp only: Let_def if_True)
    moreover from ident have "unmangled (IdentifierStr (?s\<lparr>IdentifierStr := [char_of (LastChar ?s)]\<rparr>))"
      using isalnum_unmangled [of "LastChar ?s"] by (auto simp: unmangled_def isalnum_def)
    then have "unmangled (IdentifierStr ?s1)" by (rule unmangled_read_identifier)
    ultimately show ?thesis by (simp split: if_splits)
  next
    case number
    then have "gettok strtod s0 =
        (case read_number [] False False ?s of
           ((NumStr, hasDecimal, decimalError), s1) \<Rightarrow>
             let s2 = s1\<lparr>NumVal := strtod NumStr\<rparr> in
             if decimalError
             then Exited (s2\<lparr>out := out s2 @ [NumberSyntaxError (NumVal s2)]\<rparr>)
             else Done tok_number s2)"
      by (subst gettok.simps) (simp only: Let_def if_True if_False)
    then show ?thesis using "1.prems" by (simp add: Let_def case_prod_beta)
  next
    case comment
    then have eq: "gettok strtod s0 = gettok strtod (skip_comment ?s)"
      by (subst gettok.simps) (simp add: Let_def)
    show ?thesis
      unfolding eq using comment "1.prems" by (intro 1) auto
  next
    case other
    let ?s1 = "if LastChar ?s = of_char CHR ''#'' then skip_comment ?s else ?s"
    from other have "gettok strtod s0 =
        (if LastChar ?s1 = EOF then Done tok_eof ?s1 else Done (LastChar ?s1) (getchar ?s1))"
      by (subst gettok.simps) (auto simp: Let_def)
    then show ?thesis using "1.prems" by auto
  qed
qed


lemma calls_fail_update [simp]:
  "calls_fail (s\<lparr>CurTok := t\<rparr>) = calls_fail s"
  "calls_fail (s\<lparr>BinopPrecedence := T\<rparr>) = calls_fail s"
  "calls_fail (s\<lparr>NamedValues := NV\<rparr>) = calls_fail s"
  "calls_fail (s\<lparr>Builder := ip\<rparr>) = calls_fail s"
  by (simp_all add: calls_fail_def no_arity_error_def)

lemma calls_fail_getNextToken:
  assumes "calls_fail s"
  shows "post (\<lambda>_. calls_fail) no_arity_error (getNextToken strtod s)"
proof (cases "gettok strtod s")
  case (Done t s')
  with postD(1) [OF gettok_post, of strtod s t s'] postD(1) [OF unmangled_gettok, of s strtod t s']
    assms
  show ?thesis by (simp add: getNextToken_def calls_fail_def no_arity_error_def lexer_step_def)
next
  case (Exited s')
  with postD(2) [OF gettok_post, of strtod s s'] assms
  show ?thesis by (simp add: getNextToken_def calls_fail_def no_arity_error_def fatal_exit_def)
next
  case OutOfFuel
  then show ?thesis by (simp add: getNextToken_def)
qed

lemma calls_fail_LogError:
  "m \<noteq> ''Incorrect # arguments passed'' \<Longrightarrow> calls_fail (LogError m s) = calls_fail s"
  by (simp add: calls_fail_def no_arity_error_def LogError_def)

lemma calls_fail_getTokPrecedence:
  "calls_fail (snd (getTokPrecedence s)) = calls_fail s"
  by (simp add: getTokPrecedence_def split: option.splits)

lemma mangled_update_function:
  assumes "\<And>f. fn_name (g f) = fn_name f" and "mangled_module M"
  shows "mangled_module (update_function F g M)"
  using assms by (fastforce simp: mangled_module_def member_update_function)

lemma mangled_insert_at: "mangled_module M \<Longrightarrow> mangled_module (insert_at ip I M)"
  by (auto simp: insert_at_def intro: mangled_update_function split: option.splits)

lemma mangled_eraseFromParent: "mangled_module M \<Longrightarrow> mangled_module (eraseFromParent F M)"
  by (fastforce simp: mangled_module_def eraseFromParent_def)

lemma getFunction_unmangled:
  assumes "mangled_module M" and "unmangled Callee"
  shows "getFunction Callee M = None"
proof (cases "Callee = []")
  case True
  then show ?thesis by (simp add: getFunction_def)
next
  case False
  have "find (\<lambda>(F, f). fn_name f = Callee) (Functions M) = None"
    using assms False by (fastforce simp: find_None_iff mangled_module_def)
  then show ?thesis by (simp add: getFunction_def)
qed


lemma parsed_simps [simp]:
  "parsed P None s = calls_fail s"
  "parsed P (Some a) s = (calls_fail s \<and> P a)"
  by (simp_all add: parsed_def)

lemma expression_plain:
  "(\<forall>s. calls_fail s \<longrightarrow>
       post (parsed plain_calls) no_arity_error (ParsePrimary strtod n s)) \<and>
   (\<forall>s. calls_fail s \<longrightarrow>
       post (parsed plain_calls) no_arity_error (ParseParenExpr strtod n s)) \<and>
   (\<forall>s. calls_fail s \<longrightarrow>
       post (parsed plain_calls) no_arity_error (ParseIdentifierExpr strtod n s)) \<and>
   (\<forall>s Args. calls_fail s \<longrightarrow> list_all plain_calls Args \<longrightarrow>
       post (parsed (list_all plain_calls)) no_arity_error (ParseArgs strtod n Args s)) \<and>
   (\<forall>s p l. calls_fail s \<longrightarrow> plain_calls l \<longrightarrow>
       post (parsed plain_calls) no_arity_error (ParseBinOpRHS strtod n p l s)) \<and>
   (\<forall>s. calls_fail s \<longrightarrow>
       post (parsed plain_calls) no_arity_error (ParseExpression strtod n s))"
proof (induction n)
  case 0
  show ?case by simp
next
  case (Suc n)
  then have ih:
    "\<And>s. calls_fail s \<Longrightarrow> post (parsed plain_calls) no_arity_error (ParsePrimary strtod n s)"
    "\<And>s. calls_fail s \<Longrightarrow> post (parsed plain_calls) no_arity_error (ParseParenExpr strtod n s)"
    "\<And>s. calls_fail s \<Longrightarrow>
        post (parsed plain_calls) no_arity_error (ParseIdentifierExpr strtod n s)"
    "\<And>s Args. calls_fail s \<Longrightarrow> list_all plain_calls Args \<Longrightarrow>
        post (parsed (list_all plain_calls)) no_arity_error (ParseArgs strtod n Args s)"
    "\<And>s p l. calls_fail s \<Longrightarrow> plain_calls l \<Longrightarrow>
        post (parsed plain_calls) no_arity_error (ParseBinOpRHS strtod n p l s)"
    "\<And>s. calls_fail s \<Longrightarrow> post (parsed plain_calls) no_arity_error (ParseExpression strtod n s)"
    by blast+
  note tok = post_bind [OF calls_fail_getNextToken]
  note [simp] = calls_fail_LogError calls_fail_getTokPrecedence
  have id: "unmangled (IdentifierStr s)" if "calls_fail s" for s :: "'a state"
    using that by (simp add: calls_fail_def)
  have primary: "post (parsed plain_calls) no_arity_error (ParsePrimary strtod (Suc n) s)"
    if "calls_fail s" for s
    using that by (auto simp: ParseNumberExpr_def intro!: tok ih(2,3))
  have paren: "post (parsed plain_calls) no_arity_error (ParseParenExpr strtod (Suc n) s)"
    if "calls_fail s" for s
    using that by (auto intro!: tok post_bind [OF ih(6)] split: option.splits)
  have ident: "post (parsed plain_calls) no_arity_error (ParseIdentifierExpr strtod (Suc n) s)"
    if "calls_fail s" for s
    using that id [OF that]
    by (auto simp: Let_def list_all_iff intro!: tok post_bind [OF ih(4)] split: option.splits)
  have args: "post (parsed (list_all plain_calls)) no_arity_error (ParseArgs strtod (Suc n) Args s)"
    if "calls_fail s" "list_all plain_calls Args" for s Args
    using that
    by (auto simp: Let_def intro!: tok post_bind [OF ih(6)] ih(4) split: option.splits)
  have binop: "post (parsed plain_calls) no_arity_error (ParseBinOpRHS strtod (Suc n) p l s)"
    if "calls_fail s" "plain_calls l" for s p l
  proof (cases "getTokPrecedence s")
    case (Pair TokPrec s1)
    with that have "calls_fail s1"
      using calls_fail_getTokPrecedence [of s] by simp
    with Pair that(2) show ?thesis
      by (auto simp: Let_def intro!: tok post_bind [OF ih(1)] post_bind [OF ih(5)] ih(5)
            dest!: arg_cong [where f = "\<lambda>p. calls_fail (snd p)"]
            split: option.splits prod.splits)
  qed
  have expr: "post (parsed plain_calls) no_arity_error (ParseExpression strtod (Suc n) s)"
    if "calls_fail s" for s
    using that by (auto intro!: post_bind [OF ih(1)] ih(5) split: option.splits)
  from primary paren ident args binop expr show ?case by blast
qed


lemma ParseExpression_plain:
  "calls_fail s \<Longrightarrow> post (parsed plain_calls) no_arity_error (ParseExpression strtod n s)"
  using expression_plain [of strtod n] by blast

lemma ParsePrototypeArgs_plain:
  "calls_fail s \<Longrightarrow>
   post (\<lambda>_. calls_fail) no_arity_error (ParsePrototypeArgs strtod n ArgNames s)"
proof (induction n arbitrary: s ArgNames)
  case 0
  show ?case by simp
next
  case (Suc n)
  from Suc.prems show ?case
    by (auto intro!: post_bind [OF calls_fail_getNextToken] Suc.IH)
qed

lemma ParsePrototype_plain:
  assumes "calls_fail s" and "CurTok s = tok_def \<or> CurTok s = tok_extern"
  shows "post (parsed (\<lambda>p. \<not> unmangled (getName p))) no_arity_error (ParsePrototype strtod n s)"
  using assms unfolding ParsePrototype_def Let_def
  by (auto simp: calls_fail_LogError unmangled_def
        intro!: post_bind [OF calls_fail_getNextToken] post_bind [OF ParsePrototypeArgs_plain])

lemma ParseDefinition_plain:
  assumes "calls_fail s" and "CurTok s = tok_def \<or> CurTok s = tok_extern"
  shows "post (parsed (\<lambda>fn. \<not> unmangled (getName (Proto fn)) \<and> plain_calls (Body fn)))
           no_arity_error (ParseDefinition strtod n s)"
  using assms unfolding ParseDefinition_def
  by (auto intro!: post_bind [OF ParsePrototype_plain] post_bind [OF ParseExpression_plain]
        split: option.splits)

lemma ParseTopLevelExpr_plain:
  assumes "calls_fail s"
  shows "post (parsed (\<lambda>fn. getName (Proto fn) = [] \<and> plain_calls (Body fn)))
           no_arity_error (ParseTopLevelExpr strtod n s)"
  using assms unfolding ParseTopLevelExpr_def
  by (auto intro!: post_bind [OF ParseExpression_plain] split: option.splits)

lemma calls_fail_module:
  "mangled_module M \<Longrightarrow> calls_fail s \<Longrightarrow> calls_fail (s\<lparr>TheModule := M\<rparr>)"
  by (simp add: calls_fail_def no_arity_error_def)

lemma calls_fail_Insert:
  "calls_fail s \<Longrightarrow> calls_fail (snd (Insert Folder I s))"
  "calls_fail s \<Longrightarrow> calls_fail (snd (InsertRaw I s))"
  by (auto simp: Insert_def InsertRaw_def calls_fail_def no_arity_error_def mangled_insert_at
        split: option.splits)

lemma calls_fail_codegen:
  "calls_fail s \<Longrightarrow> plain_calls e \<Longrightarrow> calls_fail (snd (codegen Folder e s))"
  "calls_fail s \<Longrightarrow> list_all plain_calls es \<Longrightarrow>
     calls_fail (snd (codegen_args Folder es vs s))"
proof (induction Folder e s and Folder es vs s rule: codegen_codegen_args.induct)
  case (1 Folder Val s)
  then show ?case by simp
next
  case (2 Folder Name s)
  then show ?case by (simp add: calls_fail_LogError split: option.splits)
next
  case (3 Folder Op LHS RHS s)
  obtain L s1 where l: "codegen Folder LHS s = (L, s1)" by (cases "codegen Folder LHS s")
  obtain R s2 where r: "codegen Folder RHS s1 = (R, s2)" by (cases "codegen Folder RHS s1")
  from 3 l have 1: "calls_fail s1" by simp
  with 3(2) [OF l [symmetric]] r 3(4) have 2: "calls_fail s2" by simp
  from l r 2 show ?case
    by (auto simp: calls_fail_LogError calls_fail_Insert case_prod_beta split: option.splits)
next
  case (4 Folder Callee Args s)
  then have "getFunction Callee (TheModule s) = None"
    by (intro getFunction_unmangled) (simp_all add: calls_fail_def)
  with 4 show ?case by (simp add: calls_fail_LogError)
next
  case (5 Folder ArgsV s)
  then show ?case by simp
next
  case (6 Folder Arg Args ArgsV s)
  obtain V s1 where a: "codegen Folder Arg s = (V, s1)" by (cases "codegen Folder Arg s")
  from 6 a have 1: "calls_fail s1" by simp
  show ?case
  proof (cases V)
    case None
    with a 1 show ?thesis by simp
  next
    case (Some v)
    with 6(2) [OF a [symmetric, unfolded Some]] 1 6(4) a show ?thesis by simp
  qed
qed


lemma calls_fail_PrototypeAST_codegen:
  assumes "calls_fail s" and "getName p = [] \<or> \<not> unmangled (getName p)"
  shows "calls_fail (snd (PrototypeAST_codegen p s))"
  using assms
  by (auto simp: PrototypeAST_codegen_def Function_Create_def calls_fail_def no_arity_error_def
        mangled_module_def)

lemma calls_fail_FunctionAST_codegen:
  assumes s: "calls_fail s"
      and name: "getName (Proto fn) = [] \<or> \<not> unmangled (getName (Proto fn))"
      and body: "plain_calls (Body fn)"
  shows "calls_fail (snd (FunctionAST_codegen Folder fn s))"
proof -
  obtain F s1 where t: "(case getFunction (getName (Proto fn)) (TheModule s) of
              Some F \<Rightarrow> (F, s)
            | None \<Rightarrow> PrototypeAST_codegen (Proto fn) s) = (F, s1)"
    by force
  have s1: "calls_fail s1"
    using t s calls_fail_PrototypeAST_codegen [OF s name] by (auto split: option.splits)
  show ?thesis
  proof (cases "blocks (TheModule s1) F \<noteq> []")
    case True
    with t s1 show ?thesis by (simp add: FunctionAST_codegen_def calls_fail_LogError)
  next
    case False
    let ?M2 = "update_function F (\<lambda>f. f\<lparr>fn_blocks := fn_blocks f @ [[]]\<rparr>) (TheModule s1)"
    let ?s3 = "bind_arguments F (s1\<lparr>TheModule := ?M2, Builder := Some (F, 0)\<rparr>)"
    have "mangled_module ?M2"
      using s1 by (intro mangled_update_function) (simp_all add: calls_fail_def)
    with s1 have s3: "calls_fail ?s3"
      by (simp add: bind_arguments_def calls_fail_module)
    obtain x s4 where c: "codegen Folder (Body fn) ?s3 = (x, s4)" by force
    with calls_fail_codegen(1) [OF s3 body, of Folder] have s4: "calls_fail s4" by simp
    then have "calls_fail (s4\<lparr>TheModule := eraseFromParent F (TheModule s4)\<rparr>)"
      by (intro calls_fail_module mangled_eraseFromParent) (simp_all add: calls_fail_def)
    with t False c s4 calls_fail_Insert(2) [OF s4] show ?thesis
      by (auto simp: FunctionAST_codegen_def BasicBlock_Create_def Let_def split: option.splits)
  qed
qed

lemma calls_fail_cout:
  "m \<noteq> ''Error: Incorrect # arguments passed'' \<Longrightarrow> calls_fail (cout m s) = calls_fail s"
  "calls_fail (print_function F s) = calls_fail s"
  by (simp_all add: cout_def print_function_def calls_fail_def no_arity_error_def
        split: option.splits)

lemma HandleDefinition_plain:
  assumes "calls_fail s" and "CurTok s = tok_def"
  shows "post (\<lambda>_. calls_fail) no_arity_error (HandleDefinition strtod Folder n s)"
proof -
  have "calls_fail (snd (FunctionAST_codegen Folder fn s1))"
    if "parsed (\<lambda>fn. \<not> unmangled (getName (Proto fn)) \<and> plain_calls (Body fn)) (Some fn) s1"
    for fn and s1 :: "'a state"
    using that by (intro calls_fail_FunctionAST_codegen) simp_all
  then show ?thesis
    using assms unfolding HandleDefinition_def
    by (intro post_bind [OF ParseDefinition_plain])
       (auto simp: calls_fail_cout case_prod_beta intro!: post_bind [OF calls_fail_getNextToken]
          split: option.splits)
qed

lemma HandleExtern_plain:
  assumes "calls_fail s" and "CurTok s = tok_extern"
  shows "post (\<lambda>_. calls_fail) no_arity_error (HandleExtern strtod n s)"
proof -
  have "calls_fail (snd (PrototypeAST_codegen p s1))"
    if "parsed (\<lambda>p. \<not> unmangled (getName p)) (Some p) s1" for p and s1 :: "'a state"
    using that by (intro calls_fail_PrototypeAST_codegen) simp_all
  then show ?thesis
    using assms unfolding HandleExtern_def ParseExtern_def
    by (intro post_bind [OF ParsePrototype_plain])
       (auto simp: calls_fail_cout case_prod_beta intro!: post_bind [OF calls_fail_getNextToken]
          split: option.splits)
qed

lemma HandleTopLevelExpression_plain:
  assumes "calls_fail s"
  shows "post (\<lambda>_. calls_fail) no_arity_error (HandleTopLevelExpression strtod Folder n s)"
proof -
  have "calls_fail (snd (FunctionAST_codegen Folder fn s1))"
    if "parsed (\<lambda>fn. getName (Proto fn) = [] \<and> plain_calls (Body fn)) (Some fn) s1"
    for fn and s1 :: "'a state"
    using that by (intro calls_fail_FunctionAST_codegen) simp_all
  moreover have "calls_fail (s1\<lparr>TheModule := eraseFromParent F (TheModule s1)\<rparr>)"
    if "calls_fail s1" for F and s1 :: "'a state"
    using that by (intro calls_fail_module mangled_eraseFromParent) (simp_all add: calls_fail_def)
  ultimately show ?thesis
    using assms unfolding HandleTopLevelExpression_def
    by (intro post_bind [OF ParseTopLevelExpr_plain])
       (auto simp: calls_fail_cout case_prod_beta Let_def
          intro!: post_bind [OF calls_fail_getNextToken] split: option.splits)
qed

lemma MainLoop_plain:
  "calls_fail s \<Longrightarrow> post (\<lambda>_. calls_fail) no_arity_error (MainLoop strtod Folder n s)"
proof (induction n arbitrary: s)
  case 0
  show ?case by simp
next
  case (Suc n)
  from Suc.prems show ?case
    by (auto simp: calls_fail_cout
          intro!: post_bind [OF calls_fail_getNextToken] post_bind [OF HandleDefinition_plain]
            post_bind [OF HandleExtern_plain] post_bind [OF HandleTopLevelExpression_plain]
            Suc.IH)
qed

lemma startup_plain: "post (\<lambda>_. calls_fail) no_arity_error (startup strtod input)"
proof -
  have "calls_fail (cout ''ready> '' (install_operators (initial_state strtod input)))"
    by (simp add: calls_fail_def no_arity_error_def mangled_module_def unmangled_def cout_def
          install_operators_def initial_state_def)
  moreover have "calls_fail (InitializeModule s)" if "calls_fail s" for s :: "'a state"
    using that
    by (simp add: calls_fail_def no_arity_error_def mangled_module_def InitializeModule_def)
  ultimately show ?thesis
    unfolding startup_def by (intro post_bind [OF calls_fail_getNextToken]) simp_all
qed

lemma main_plain:
  "post (\<lambda>_ s. no_arity_error s) no_arity_error (main strtod Folder n input)"
  unfolding main_def
  by (rule post_bind [OF startup_plain], rule post_bind [OF MainLoop_plain])
     (simp_all add: calls_fail_def no_arity_error_def)

lemma arity_error_unreachable:
  "Stdout ''Error: Incorrect # arguments passed'' \<notin> set (trace (main strtod Folder n input))"
  using main_plain [of strtod Folder n input]
  by (cases "main strtod Folder n input") (simp_all add: trace_def no_arity_error_def)

subsection \<open>What a failed parse has done\<close>

lemma parse_effect_refl [simp]: "parse_effect s (Some a) s"
  by (simp add: parse_effect_def)

lemma parse_effect_trans:
  "parse_effect s (Some a) s1 \<Longrightarrow> parse_effect s1 r s2 \<Longrightarrow> parse_effect s r s2"
  by (auto simp: parse_effect_def intro: table_extends_trans split: option.splits)

lemma parse_effect_Some: "parse_effect s (Some a) s' \<Longrightarrow> parse_effect s (Some b) s'"
  by (simp add: parse_effect_def)

lemma parse_effect_LogError [simp]: "parse_effect s None (LogError m s)"
  by (simp add: parse_effect_def LogError_def)

lemma parse_effect_getNextToken:
  "post (\<lambda>t. parse_effect s (Some a)) (\<lambda>_. True) (getNextToken strtod s)"
  by (rule post_mono [OF getNextToken_post]) (simp_all add: lexer_step_def parse_effect_def)

lemma parse_effect_getTokPrecedence:
  "getTokPrecedence s = (p, s') \<Longrightarrow> parse_effect s (Some a) s'"
  using getTokPrecedence_table [of s]
  by (auto simp: getTokPrecedence_def parse_effect_def split: if_splits option.splits)

lemma parse_effect_bind:
  assumes "post (parse_effect s) (\<lambda>_. True) m"
      and "\<And>a s1. parse_effect s (Some a) s1 \<Longrightarrow> post (parse_effect s1) (\<lambda>_. True) (f (Some a) s1)"
      and "\<And>s1. f None s1 = Done None s1"
  shows "post (parse_effect s) (\<lambda>_. True) (bind m f)"
proof (cases m)
  case (Done r s1)
  show ?thesis
  proof (cases r)
    case None
    with Done assms(1,3) show ?thesis by (simp add: parse_effect_def)
  next
    case (Some a)
    with Done assms(1) have "parse_effect s (Some a) s1" by simp
    from post_mono [OF assms(2) [OF this], of "parse_effect s" "\<lambda>_. True"] this Done Some
    show ?thesis by (auto intro: parse_effect_trans)
  qed
qed (use assms in simp_all)

lemma parse_effect_step:
  assumes "post (\<lambda>t. parse_effect s (Some a)) (\<lambda>_. True) m"
      and "\<And>t s1. parse_effect s (Some a) s1 \<Longrightarrow> post (parse_effect s1) (\<lambda>_. True) (f t s1)"
  shows "post (parse_effect s) (\<lambda>_. True) (bind m f)"
proof (cases m)
  case (Done t s1)
  with assms(1) have "parse_effect s (Some a) s1" by simp
  from post_mono [OF assms(2) [OF this], of "parse_effect s" "\<lambda>_. True"] this Done
  show ?thesis by (auto intro: parse_effect_trans)
qed (use assms in simp_all)


lemma parse_effect_from:
  "parse_effect s (Some a) s1 \<Longrightarrow> post (parse_effect s1) (\<lambda>_. True) r \<Longrightarrow>
   post (parse_effect s) (\<lambda>_. True) r"
  by (cases r) (auto intro: parse_effect_trans)

lemma expression_effect:
  "(\<forall>s. post (parse_effect s) (\<lambda>_. True) (ParsePrimary strtod n s)) \<and>
   (\<forall>s. post (parse_effect s) (\<lambda>_. True) (ParseParenExpr strtod n s)) \<and>
   (\<forall>s. post (parse_effect s) (\<lambda>_. True) (ParseIdentifierExpr strtod n s)) \<and>
   (\<forall>s Args. post (parse_effect s) (\<lambda>_. True) (ParseArgs strtod n Args s)) \<and>
   (\<forall>s p l. post (parse_effect s) (\<lambda>_. True) (ParseBinOpRHS strtod n p l s)) \<and>
   (\<forall>s. post (parse_effect s) (\<lambda>_. True) (ParseExpression strtod n s))"
proof (induction n)
  case 0
  show ?case by simp
next
  case (Suc n)
  then have ih:
    "\<And>s. post (parse_effect s) (\<lambda>_. True) (ParsePrimary strtod n s)"
    "\<And>s. post (parse_effect s) (\<lambda>_. True) (ParseParenExpr strtod n s)"
    "\<And>s. post (parse_effect s) (\<lambda>_. True) (ParseIdentifierExpr strtod n s)"
    "\<And>s Args. post (parse_effect s) (\<lambda>_. True) (ParseArgs strtod n Args s)"
    "\<And>s p l. post (parse_effect s) (\<lambda>_. True) (ParseBinOpRHS strtod n p l s)"
    "\<And>s. post (parse_effect s) (\<lambda>_. True) (ParseExpression strtod n s)"
    by blast+
  note tok = parse_effect_step [OF parse_effect_getNextToken]
  note [simp del] = ParsePrimary.simps ParseParenExpr.simps ParseIdentifierExpr.simps
    ParseArgs.simps ParseBinOpRHS.simps ParseExpression.simps
  have primary: "post (parse_effect s) (\<lambda>_. True) (ParsePrimary strtod (Suc n) s)" for s
    unfolding ParsePrimary.simps(2) ParseNumberExpr_def Let_def
    by (auto intro!: tok ih)
  have paren: "post (parse_effect s) (\<lambda>_. True) (ParseParenExpr strtod (Suc n) s)" for s
    unfolding ParseParenExpr.simps(2)
    by (auto intro!: tok parse_effect_bind [OF ih(6)])
  have ident: "post (parse_effect s) (\<lambda>_. True) (ParseIdentifierExpr strtod (Suc n) s)" for s
    unfolding ParseIdentifierExpr.simps(2) Let_def
    by (auto intro!: tok parse_effect_bind ih)
  have args: "post (parse_effect s) (\<lambda>_. True) (ParseArgs strtod (Suc n) Args s)" for s Args
    unfolding ParseArgs.simps(2) [of _ n] Let_def
    by (auto intro!: tok parse_effect_bind [OF ih(6)] ih)
  have binop: "post (parse_effect s) (\<lambda>_. True) (ParseBinOpRHS strtod (Suc n) p l s)" for s p l
  proof (cases "getTokPrecedence s")
    case (Pair TokPrec s1)
    note e = parse_effect_getTokPrecedence [OF Pair]
    show ?thesis
    proof (cases "TokPrec < p")
      case True
      with Pair e show ?thesis
        by (subst ParseBinOpRHS.simps(2)) (simp add: parse_effect_Some [OF e])
    next
      case False
      have "post (parse_effect s1) (\<lambda>_. True)
          (bind (getNextToken strtod s1) (\<lambda>_ s2.
           bind (ParsePrimary strtod n s2) (\<lambda>RHS s3.
             case RHS of
               None \<Rightarrow> Done None s3
             | Some rhs \<Rightarrow>
                 (case getTokPrecedence s3 of (NextPrec, s4) \<Rightarrow>
                    bind (if TokPrec < NextPrec then ParseBinOpRHS strtod n (TokPrec + 1) rhs s4
                          else Done (Some rhs) s4) (\<lambda>RHS1 s5.
                      case RHS1 of
                        None \<Rightarrow> Done None s5
                      | Some rhs1 \<Rightarrow>
                          ParseBinOpRHS strtod n p
                            (BinaryExprAST (char_of (CurTok s1)) l rhs1) s5)))))"
        by (auto intro!: tok parse_effect_bind [OF ih(1)] parse_effect_bind ih
              intro: parse_effect_from [OF parse_effect_getTokPrecedence]
              split: prod.splits)
      then have "post (parse_effect s) (\<lambda>_. True)
          (bind (getNextToken strtod s1) (\<lambda>_ s2.
           bind (ParsePrimary strtod n s2) (\<lambda>RHS s3.
             case RHS of
               None \<Rightarrow> Done None s3
             | Some rhs \<Rightarrow>
                 (case getTokPrecedence s3 of (NextPrec, s4) \<Rightarrow>
                    bind (if TokPrec < NextPrec then ParseBinOpRHS strtod n (TokPrec + 1) rhs s4
                          else Done (Some rhs) s4) (\<lambda>RHS1 s5.
                      case RHS1 of
                        None \<Rightarrow> Done None s5
                      | Some rhs1 \<Rightarrow>
                          ParseBinOpRHS strtod n p
                            (BinaryExprAST (char_of (CurTok s1)) l rhs1) s5)))))"
        by (rule parse_effect_from [OF e])
      with Pair False show ?thesis
        by (subst ParseBinOpRHS.simps(2)) (simp add: Let_def)
    qed
  qed
  have expr: "post (parse_effect s) (\<lambda>_. True) (ParseExpression strtod (Suc n) s)" for s
    unfolding ParseExpression.simps(2)
    by (auto intro!: parse_effect_bind [OF ih(1)] ih)
  from primary paren ident args binop expr show ?case by blast
qed


lemma ParseExpression_effect:
  "post (parse_effect s) (\<lambda>_. True) (ParseExpression strtod n s)"
  using expression_effect [of strtod n] by blast

lemma ParsePrototypeArgs_effect:
  "post (\<lambda>_. parse_effect s (Some ())) (\<lambda>_. True) (ParsePrototypeArgs strtod n ArgNames s)"
proof (induction n arbitrary: s ArgNames)
  case 0
  show ?case by simp
next
  case (Suc n)
  show ?case
  proof (cases "getNextToken strtod s")
    case (Done t s1)
    with parse_effect_getNextToken [of s _ strtod] have e: "parse_effect s (Some ()) s1" by simp
    have "post (\<lambda>_. parse_effect s (Some ())) (\<lambda>_. True)
            (ParsePrototypeArgs strtod n (ArgNames @ [IdentifierStr s1]) s1)"
      by (rule post_mono [OF Suc.IH]) (auto intro: parse_effect_trans [OF e])
    with Done e show ?thesis by auto
  qed simp_all
qed

lemma ParsePrototype_effect:
  "post (parse_effect s) (\<lambda>_. True) (ParsePrototype strtod n s)"
proof -
  have args: "post (parse_effect s2) (\<lambda>_. True)
      (bind (ParsePrototypeArgs strtod n [] s2) f)"
    if "\<And>a s3. post (parse_effect s3) (\<lambda>_. True) (f a s3)" for s2 :: "'a state"
      and f :: "string list \<Rightarrow> 'a state \<Rightarrow> (PrototypeAST option, 'a state) result"
    by (rule parse_effect_step [OF ParsePrototypeArgs_effect]) (rule that)
  show ?thesis
    unfolding ParsePrototype_def Let_def
    by (auto intro!: parse_effect_step [OF parse_effect_getNextToken] args)
qed

lemma ParseDefinition_effect:
  "post (parse_effect s) (\<lambda>_. True) (ParseDefinition strtod n s)"
  unfolding ParseDefinition_def
  by (auto intro!: parse_effect_bind [OF ParsePrototype_effect]
        parse_effect_bind [OF ParseExpression_effect])

lemma ParseTopLevelExpr_effect:
  "post (parse_effect s) (\<lambda>_. True) (ParseTopLevelExpr strtod n s)"
  unfolding ParseTopLevelExpr_def
  by (auto intro!: parse_effect_bind [OF ParseExpression_effect])

lemma failed_parse:
  assumes "ParseDefinition strtod n s = Done None s1 \<or> ParseExtern strtod n s = Done None s1 \<or>
           ParseTopLevelExpr strtod n s = Done (None :: 'a FunctionAST option) s1"
  shows "parse_effect s (None :: unit option) s1"
  using assms postD(1) [OF ParseDefinition_effect, of strtod n s None s1]
    postD(1) [OF ParsePrototype_effect, of strtod n s None s1]
    postD(1) [OF ParseTopLevelExpr_effect, of strtod n s None s1]
  by (auto simp: ParseExtern_def parse_effect_def)

subsection \<open>A run resumed after a failed parse\<close>

lemma same_output_append:
  "same_output p p' o1 o2 \<Longrightarrow> same_output p p' (o1 @ e) (o2 @ e)"
  by (auto simp: same_output_def)

lemma same_input_update:
  "same_input p p' s s' \<Longrightarrow> same_input p p' (s\<lparr>IdentifierStr := x\<rparr>) (s'\<lparr>IdentifierStr := y\<rparr>)"
  "same_input p p' s s' \<Longrightarrow> same_input p p' (s\<lparr>NumVal := v\<rparr>) (s'\<lparr>NumVal := w\<rparr>)"
  "same_input p p' s s' \<Longrightarrow> same_input p p' (s\<lparr>CurTok := t\<rparr>) (s'\<lparr>CurTok := u\<rparr>)"
  by (simp_all add: same_input_def)

lemma EOF_le_of_char: "EOF \<le> (of_char c :: int)"
proof -
  have "(0 :: int) \<le> of_nat (of_char c)" by simp
  then show ?thesis by (simp only: of_nat_of_char)
qed

lemma same_input_getchar:
  "same_input p p' s s' \<Longrightarrow> same_input p p' (getchar s) (getchar s')"
  by (auto simp: same_input_def getchar_def EOF_le_of_char split: list.splits)

lemma same_input_LastChar: "same_input p p' s s' \<Longrightarrow> LastChar s' = LastChar s"
  by (simp add: same_input_def)

lemma same_input_skip_whitespace:
  "same_input p p' s s' \<Longrightarrow> same_input p p' (skip_whitespace s) (skip_whitespace s')"
proof (induction s arbitrary: s' rule: skip_whitespace.induct)
  case (1 s)
  note l = same_input_LastChar [OF "1.prems"]
  show ?case
  proof (cases "isspace (LastChar s)")
    case True
    from "1.IH" [OF True same_input_getchar [OF "1.prems"]] True l show ?thesis
      by (subst (1 2) skip_whitespace.simps) simp
  next
    case False
    with l "1.prems" show ?thesis by (subst (1 2) skip_whitespace.simps) simp
  qed
qed

lemma same_input_skip_comment:
  "same_input p p' s s' \<Longrightarrow> same_input p p' (skip_comment s) (skip_comment s')"
proof (induction s arbitrary: s' rule: skip_comment.induct)
  case (1 s)
  let ?s1 = "getchar s"
  note g = same_input_getchar [OF "1.prems"]
  note l = same_input_LastChar [OF g]
  show ?case
  proof (cases "LastChar ?s1 \<noteq> EOF \<and> LastChar ?s1 \<noteq> 10 \<and> LastChar ?s1 \<noteq> 13")
    case True
    from "1.IH" [OF refl True g] True l show ?thesis
      by (subst (1 2) skip_comment.simps) (simp add: Let_def)
  next
    case False
    with l g show ?thesis
      by (subst (1 2) skip_comment.simps) (auto simp: Let_def)
  qed
qed

lemma same_input_read_identifier:
  "same_input p p' s s' \<Longrightarrow> IdentifierStr s' = IdentifierStr s \<Longrightarrow>
   same_input p p' (read_identifier s) (read_identifier s') \<and>
   IdentifierStr (read_identifier s') = IdentifierStr (read_identifier s)"
proof (induction s arbitrary: s' rule: read_identifier.induct)
  case (1 s)
  let ?s1 = "getchar s"
  let ?t1 = "getchar s'"
  note g = same_input_getchar [OF "1.prems"(1)]
  note l = same_input_LastChar [OF g]
  have i: "IdentifierStr ?t1 = IdentifierStr ?s1" using "1.prems"(2) by simp
  show ?case
  proof (cases "isalnum (LastChar ?s1)")
    case True
    let ?s2 = "?s1\<lparr>IdentifierStr := IdentifierStr ?s1 @ [char_of (LastChar ?s1)]\<rparr>"
    let ?t2 = "?t1\<lparr>IdentifierStr := IdentifierStr ?t1 @ [char_of (LastChar ?t1)]\<rparr>"
    have "same_input p p' ?s2 ?t2" using g by (rule same_input_update)
    moreover have "IdentifierStr ?t2 = IdentifierStr ?s2" using i l by simp
    ultimately have "same_input p p' (read_identifier ?s2) (read_identifier ?t2) \<and>
        IdentifierStr (read_identifier ?t2) = IdentifierStr (read_identifier ?s2)"
      by (rule "1.IH" [OF refl True])
    moreover have "read_identifier s = read_identifier ?s2"
      using True by (subst read_identifier.simps) (simp add: Let_def)
    moreover have "read_identifier s' = read_identifier ?t2"
      using True l by (subst read_identifier.simps) (simp add: Let_def)
    ultimately show ?thesis by simp
  next
    case False
    then have "read_identifier s = ?s1" by (subst read_identifier.simps) (simp add: Let_def)
    moreover from False l have "read_identifier s' = ?t1"
      by (subst read_identifier.simps) (simp add: Let_def)
    ultimately show ?thesis using g i by simp
  qed
qed

lemma same_input_read_number:
  "same_input p p' s s' \<Longrightarrow>
   fst (read_number NumStr hasDecimal decimalError s') =
     fst (read_number NumStr hasDecimal decimalError s) \<and>
   same_input p p' (snd (read_number NumStr hasDecimal decimalError s))
     (snd (read_number NumStr hasDecimal decimalError s'))"
proof (induction NumStr hasDecimal decimalError s arbitrary: s' rule: read_number.induct)
  case (1 NumStr hasDecimal decimalError s)
  let ?s1 = "getchar s"
  note l0 = same_input_LastChar [OF "1.prems"]
  note g = same_input_getchar [OF "1.prems"]
  note l = same_input_LastChar [OF g]
  show ?case
  proof (cases "isdigit (LastChar ?s1) \<or> LastChar ?s1 = of_char CHR ''.''")
    case True
    from "1.IH" [OF refl refl refl refl True g] True l l0 show ?thesis
      by (subst (1 2 3 4) read_number.simps) (simp add: Let_def)
  next
    case False
    with l l0 g show ?thesis
      by (subst (1 2 3 4) read_number.simps) (simp add: Let_def)
  qed
qed

lemma same_token_gettok:
  "same_input p p' s0 s0' \<Longrightarrow> same_token p p' (gettok strtod s0) (gettok strtod s0')"
proof (induction strtod s0 arbitrary: s0' rule: gettok.induct)
  case (1 strtod s0)
  let ?s = "skip_whitespace s0"
  let ?t = "skip_whitespace s0'"
  note ws = same_input_skip_whitespace [OF "1.prems"]
  note l = same_input_LastChar [OF ws]
  note cm = same_input_skip_comment [OF ws]
  note lc = same_input_LastChar [OF cm]
  consider (ident) "isalpha (LastChar ?s)"
    | (number) "\<not> isalpha (LastChar ?s)" "isdigit (LastChar ?s) \<or> LastChar ?s = of_char CHR ''.''"
    | (comment) "\<not> isalpha (LastChar ?s)" "\<not> (isdigit (LastChar ?s) \<or> LastChar ?s = of_char CHR ''.'')"
        "LastChar ?s = of_char CHR ''#'' \<and> LastChar (skip_comment ?s) \<noteq> EOF"
    | (other) "\<not> isalpha (LastChar ?s)" "\<not> (isdigit (LastChar ?s) \<or> LastChar ?s = of_char CHR ''.'')"
        "\<not> (LastChar ?s = of_char CHR ''#'' \<and> LastChar (skip_comment ?s) \<noteq> EOF)"
    by blast
  then show ?case
  proof cases
    case ident
    let ?i = "[char_of (LastChar ?s)]"
    have "same_input p p' (?s\<lparr>IdentifierStr := ?i\<rparr>) (?t\<lparr>IdentifierStr := ?i\<rparr>)"
      using ws by (rule same_input_update)
    from same_input_read_identifier [OF this]
    have r: "same_input p p' (read_identifier (?s\<lparr>IdentifierStr := ?i\<rparr>))
          (read_identifier (?t\<lparr>IdentifierStr := ?i\<rparr>))"
      "IdentifierStr (read_identifier (?t\<lparr>IdentifierStr := ?i\<rparr>)) =
        IdentifierStr (read_identifier (?s\<lparr>IdentifierStr := ?i\<rparr>))"
      by simp_all
    from ident show ?thesis
      by (subst (1 2) gettok.simps) (simp add: Let_def l r same_token_def)
  next
    case number
    from same_input_read_number [OF ws, of "[]" False False] number show ?thesis
      by (subst (1 2) gettok.simps)
         (auto simp: Let_def l same_token_def same_input_def same_output_def split: prod.splits)
  next
    case comment
    have "same_token p p' (gettok strtod (skip_comment ?s)) (gettok strtod (skip_comment ?t))"
      using comment cm by (intro 1) auto
    moreover have "gettok strtod s0 = gettok strtod (skip_comment ?s)"
      using comment by (subst gettok.simps) (simp add: Let_def)
    moreover have "gettok strtod s0' = gettok strtod (skip_comment ?t)"
      using comment by (subst gettok.simps) (simp add: Let_def l lc)
    ultimately show ?thesis by simp
  next
    case other
    let ?s1 = "if LastChar ?s = of_char CHR ''#'' then skip_comment ?s else ?s"
    let ?t1 = "if LastChar ?s = of_char CHR ''#'' then skip_comment ?t else ?t"
    have s1: "same_input p p' ?s1 ?t1" using ws cm by simp
    note l1 = same_input_LastChar [OF s1]
    have "EOF \<le> LastChar ?s1" using s1 by (simp only: same_input_def)
    then have tk: "LastChar ?s1 \<noteq> EOF \<Longrightarrow> LastChar ?s1 \<noteq> tok_identifier \<and> LastChar ?s1 \<noteq> tok_number"
      by arith
    have a: "gettok strtod s0 =
        (if LastChar ?s1 = EOF then Done tok_eof ?s1 else Done (LastChar ?s1) (getchar ?s1))"
      using other by (subst gettok.simps) (auto simp: Let_def)
    have b: "gettok strtod s0' =
        (if LastChar ?s1 = EOF then Done tok_eof ?t1 else Done (LastChar ?s1) (getchar ?t1))"
      using other l lc by (subst gettok.simps) (auto simp: Let_def)
    show ?thesis
      unfolding a b using s1 same_input_getchar [OF s1] tk
      by (simp add: same_token_def)
  qed
qed

lemma resumed_result_simps [simp]:
  "resumed_result p p' (Done a s) r' = (\<exists>s'. r' = Done a s' \<and> resumed p p' s s')"
  "resumed_result p p' (Exited s) r' = (\<exists>s'. r' = Exited s' \<and> same_output p p' (out s) (out s'))"
  "resumed_result p p' OutOfFuel r' = (r' = OutOfFuel)"
  by (simp_all add: resumed_result_def)

lemma resumed_bind:
  assumes "resumed_result p p' r r'"
    and "\<And>a s s'. resumed p p' s s' \<Longrightarrow> CurTok s' = CurTok s \<Longrightarrow>
           resumed_result p p' (f a s) (f' a s')"
  shows "resumed_result p p' (bind r f) (bind r' f')"
  using assms by (cases r) (auto simp: bind_def resumed_def)

lemma resumed_getNextToken:
  assumes "same_input p p' s s'"
    and "\<And>t s1 s1'. resumed p p' s1 s1' \<Longrightarrow> CurTok s1 = t \<Longrightarrow> CurTok s1' = t \<Longrightarrow>
           (t = tok_identifier \<longrightarrow> IdentifierStr s1' = IdentifierStr s1) \<Longrightarrow>
           resumed_result p p' (f t s1) (f' t s1')"
  shows "resumed_result p p' (bind (getNextToken strtod s) f) (bind (getNextToken strtod s') f')"
proof (cases "gettok strtod s")
  case (Done t s1)
  with same_token_gettok [OF assms(1), of strtod] obtain s1' where
    g: "gettok strtod s' = Done t s1'" and i: "same_input p p' s1 s1'"
    and v: "t = tok_identifier \<longrightarrow> IdentifierStr s1' = IdentifierStr s1"
      "t = tok_number \<longrightarrow> NumVal s1' = NumVal s1"
    by (auto simp: same_token_def)
  have "resumed p p' (s1\<lparr>CurTok := t\<rparr>) (s1'\<lparr>CurTok := t\<rparr>)"
    using same_input_update(3) [OF i, of t t] v by (simp add: resumed_def)
  from assms(2) [OF this] v show ?thesis by (simp add: getNextToken_def Done g bind_def)
next
  case (Exited s1)
  with same_token_gettok [OF assms(1), of strtod] show ?thesis
    by (auto simp: same_token_def getNextToken_def bind_def)
next
  case OutOfFuel
  with same_token_gettok [OF assms(1), of strtod] show ?thesis
    by (auto simp: same_token_def getNextToken_def bind_def)
qed

lemma resumed_same_input: "resumed p p' s s' \<Longrightarrow> same_input p p' s s'"
  by (simp add: resumed_def)

lemmas resumed_next = resumed_getNextToken [OF resumed_same_input]

lemma resumed_LogError: "resumed p p' s s' \<Longrightarrow> resumed p p' (LogError m s) (LogError m s')"
  by (auto simp: resumed_def same_input_def same_output_def LogError_def)

lemma resumed_CurTok: "resumed p p' s s' \<Longrightarrow> CurTok s' = CurTok s"
  by (simp add: resumed_def)

lemma resumed_getTokPrecedence:
  assumes "resumed p p' s s'"
  shows "fst (getTokPrecedence s') = fst (getTokPrecedence s) \<and>
    resumed p p' (snd (getTokPrecedence s)) (snd (getTokPrecedence s')) \<and>
    CurTok (snd (getTokPrecedence s)) = CurTok s"
proof -
  from assms have c: "CurTok s' = CurTok s"
    and a: "same_answers (BinopPrecedence s) (BinopPrecedence s')"
    by (simp_all add: resumed_def same_input_def)
  from a have "(case BinopPrecedence s (char_of (CurTok s)) of None \<Rightarrow> 0 | Some q \<Rightarrow> q) =
      (case BinopPrecedence s' (char_of (CurTok s)) of None \<Rightarrow> 0 | Some q \<Rightarrow> q)"
    unfolding same_answers_def by blast
  moreover have "same_answers (T(k \<mapsto> 0)) T'" "same_answers T (T'(k \<mapsto> 0))"
    "same_answers (T(k \<mapsto> 0)) (T'(k \<mapsto> 0))"
    if "same_answers T T'" "(case T k of None \<Rightarrow> 0 | Some q \<Rightarrow> q) = 0" for T T' :: "char \<rightharpoonup> int" and k
    using that by (auto simp: same_answers_def split: option.splits)
  ultimately show ?thesis using assms c a
    by (auto simp: getTokPrecedence_def resumed_def same_input_def split: option.splits)
qed

lemma resumed_prec:
  assumes "resumed p p' s s'"
    and "\<And>q s1 s1'. resumed p p' s1 s1' \<Longrightarrow> CurTok s1' = CurTok s \<Longrightarrow> CurTok s1 = CurTok s \<Longrightarrow>
           resumed_result p p' (f q s1) (f' q s1')"
  shows "resumed_result p p' (case getTokPrecedence s of (q, s1) \<Rightarrow> f q s1)
           (case getTokPrecedence s' of (q, s1) \<Rightarrow> f' q s1)"
proof -
  note g = resumed_getTokPrecedence [OF assms(1)]
  from g have "CurTok (snd (getTokPrecedence s')) = CurTok s"
    using resumed_CurTok [of p p' "snd (getTokPrecedence s)" "snd (getTokPrecedence s')"] by simp
  with assms(2) [of "snd (getTokPrecedence s)" "snd (getTokPrecedence s')" "fst (getTokPrecedence s)"] g
  show ?thesis by (simp add: case_prod_beta)
qed

lemma resumed_ParseNumberExpr:
  "resumed p p' s s' \<Longrightarrow> CurTok s = tok_number \<Longrightarrow>
   resumed_result p p' (ParseNumberExpr strtod s) (ParseNumberExpr strtod s')"
  unfolding ParseNumberExpr_def Let_def
  by (rule resumed_next) (auto simp: resumed_def)

lemma resumed_expression:
  "(\<forall>s s'. resumed p p' s s' \<longrightarrow>
      resumed_result p p' (ParsePrimary strtod n s) (ParsePrimary strtod n s')) \<and>
   (\<forall>s s'. resumed p p' s s' \<longrightarrow>
      resumed_result p p' (ParseParenExpr strtod n s) (ParseParenExpr strtod n s')) \<and>
   (\<forall>s s'. resumed p p' s s' \<and> CurTok s = tok_identifier \<longrightarrow>
      resumed_result p p' (ParseIdentifierExpr strtod n s) (ParseIdentifierExpr strtod n s')) \<and>
   (\<forall>s s' Args. resumed p p' s s' \<longrightarrow>
      resumed_result p p' (ParseArgs strtod n Args s) (ParseArgs strtod n Args s')) \<and>
   (\<forall>s s' q l. resumed p p' s s' \<longrightarrow>
      resumed_result p p' (ParseBinOpRHS strtod n q l s) (ParseBinOpRHS strtod n q l s')) \<and>
   (\<forall>s s'. resumed p p' s s' \<longrightarrow>
      resumed_result p p' (ParseExpression strtod n s) (ParseExpression strtod n s'))"
proof (induction n)
  case 0
  show ?case by simp
next
  case (Suc n)
  then have ih:
    "\<And>s s'. resumed p p' s s' \<Longrightarrow>
      resumed_result p p' (ParsePrimary strtod n s) (ParsePrimary strtod n s')"
    "\<And>s s'. resumed p p' s s' \<Longrightarrow>
      resumed_result p p' (ParseParenExpr strtod n s) (ParseParenExpr strtod n s')"
    "\<And>s s'. resumed p p' s s' \<Longrightarrow> CurTok s = tok_identifier \<Longrightarrow>
      resumed_result p p' (ParseIdentifierExpr strtod n s) (ParseIdentifierExpr strtod n s')"
    "\<And>s s' Args. resumed p p' s s' \<Longrightarrow>
      resumed_result p p' (ParseArgs strtod n Args s) (ParseArgs strtod n Args s')"
    "\<And>s s' q l. resumed p p' s s' \<Longrightarrow>
      resumed_result p p' (ParseBinOpRHS strtod n q l s) (ParseBinOpRHS strtod n q l s')"
    "\<And>s s'. resumed p p' s s' \<Longrightarrow>
      resumed_result p p' (ParseExpression strtod n s) (ParseExpression strtod n s')"
    by blast+
  note [simp del] = ParsePrimary.simps ParseParenExpr.simps ParseIdentifierExpr.simps
    ParseArgs.simps ParseBinOpRHS.simps ParseExpression.simps
  have primary: "resumed_result p p' (ParsePrimary strtod (Suc n) s) (ParsePrimary strtod (Suc n) s')"
    if r: "resumed p p' s s'" for s s'
    unfolding ParsePrimary.simps(2) resumed_CurTok [OF r] using r
    by (auto intro!: ih resumed_ParseNumberExpr resumed_LogError)
  have paren: "resumed_result p p' (ParseParenExpr strtod (Suc n) s) (ParseParenExpr strtod (Suc n) s')"
    if r: "resumed p p' s s'" for s s'
    unfolding ParseParenExpr.simps(2) using r
    by (auto intro!: resumed_next resumed_bind [OF ih(6)] resumed_LogError split: option.splits)
  have ident: "resumed_result p p' (ParseIdentifierExpr strtod (Suc n) s)
      (ParseIdentifierExpr strtod (Suc n) s')"
    if r: "resumed p p' s s'" and c: "CurTok s = tok_identifier" for s s'
  proof -
    from r c have i: "IdentifierStr s' = IdentifierStr s" by (simp add: resumed_def)
    show ?thesis
      unfolding ParseIdentifierExpr.simps(2) Let_def i using r
      by (auto intro!: resumed_next resumed_bind [OF ih(4)] split: option.splits)
  qed
  have args: "resumed_result p p' (ParseArgs strtod (Suc n) Args s) (ParseArgs strtod (Suc n) Args s')"
    if r: "resumed p p' s s'" for s s' Args
    unfolding ParseArgs.simps(2) [of _ n] Let_def using r
    by (auto intro!: resumed_next resumed_bind [OF ih(6)] resumed_LogError ih split: option.splits)
  have binop: "resumed_result p p' (ParseBinOpRHS strtod (Suc n) q l s)
      (ParseBinOpRHS strtod (Suc n) q l s')"
    if r: "resumed p p' s s'" for s s' q l
    unfolding ParseBinOpRHS.simps(2) [of _ n] Let_def
    by (rule resumed_prec [OF r])
       (auto intro!: resumed_next resumed_bind [OF ih(1)] resumed_prec resumed_bind [OF ih(5)] ih
          split: option.splits)
  have expr: "resumed_result p p' (ParseExpression strtod (Suc n) s) (ParseExpression strtod (Suc n) s')"
    if r: "resumed p p' s s'" for s s'
    unfolding ParseExpression.simps(2) using r
    by (auto intro!: resumed_bind [OF ih(1)] ih split: option.splits)
  from primary paren ident args binop expr show ?case by blast
qed

lemma resumed_ParseExpression:
  "resumed p p' s s' \<Longrightarrow>
   resumed_result p p' (ParseExpression strtod n s) (ParseExpression strtod n s')"
  using resumed_expression [of p p' strtod n] by blast

lemma resumed_ParsePrototypeArgs:
  "same_input p p' s s' \<Longrightarrow>
   resumed_result p p' (ParsePrototypeArgs strtod n ArgNames s)
     (ParsePrototypeArgs strtod n ArgNames s')"
proof (induction n arbitrary: s s' ArgNames)
  case 0
  show ?case by simp
next
  case (Suc n)
  show ?case
    unfolding ParsePrototypeArgs.simps
    by (rule resumed_getNextToken [OF Suc.prems])
       (auto intro!: Suc.IH resumed_same_input)
qed

lemma resumed_ParsePrototype:
  assumes r: "resumed p p' s s'"
  shows "resumed_result p p' (ParsePrototype strtod n s) (ParsePrototype strtod n s')"
  unfolding ParsePrototype_def Let_def resumed_CurTok [OF r] using r
  by (auto intro!: resumed_next resumed_bind [OF resumed_ParsePrototypeArgs] resumed_LogError
        resumed_same_input)

lemma resumed_ParseDefinition:
  "resumed p p' s s' \<Longrightarrow>
   resumed_result p p' (ParseDefinition strtod n s) (ParseDefinition strtod n s')"
  unfolding ParseDefinition_def
  by (auto intro!: resumed_bind [OF resumed_ParsePrototype] resumed_bind [OF resumed_ParseExpression]
        split: option.splits)

lemma resumed_ParseTopLevelExpr:
  "resumed p p' s s' \<Longrightarrow>
   resumed_result p p' (ParseTopLevelExpr strtod n s) (ParseTopLevelExpr strtod n s')"
  unfolding ParseTopLevelExpr_def
  by (auto intro!: resumed_bind [OF resumed_ParseExpression] split: option.splits)

lemma resumed_update:
  "resumed p p' s s' \<Longrightarrow> resumed p p' (s\<lparr>TheModule := M\<rparr>) (s'\<lparr>TheModule := M\<rparr>)"
  "resumed p p' s s' \<Longrightarrow> resumed p p' (s\<lparr>NamedValues := NV\<rparr>) (s'\<lparr>NamedValues := NV\<rparr>)"
  "resumed p p' s s' \<Longrightarrow> resumed p p' (s\<lparr>Builder := B\<rparr>) (s'\<lparr>Builder := B\<rparr>)"
  "resumed p p' s s' \<Longrightarrow> resumed p p' (s\<lparr>out := out s @ e\<rparr>) (s'\<lparr>out := out s' @ e\<rparr>)"
  by (auto simp: resumed_def same_input_def same_output_def)

lemma resumed_fields:
  assumes "resumed p p' s s'"
  shows "TheModule s' = TheModule s" "NamedValues s' = NamedValues s" "Builder s' = Builder s"
  using assms by (simp_all add: resumed_def same_input_def)

lemma resumed_Insert:
  assumes r: "resumed p p' s s'"
  shows "fst (Insert Folder I s') = fst (Insert Folder I s)"
    "resumed p p' (snd (Insert Folder I s)) (snd (Insert Folder I s'))"
  using r resumed_update(1) [OF r]
  by (auto simp: Insert_def resumed_fields [OF r] split: option.splits)

lemma resumed_InsertRaw:
  assumes r: "resumed p p' s s'"
  shows "fst (InsertRaw I s') = fst (InsertRaw I s)"
    "resumed p p' (snd (InsertRaw I s)) (snd (InsertRaw I s'))"
  using resumed_update(1) [OF r]
  by (auto simp: InsertRaw_def resumed_fields [OF r])

lemma same_lowering_simp [simp]:
  "same_lowering p p' (a, s) r' = (\<exists>s'. r' = (a, s') \<and> resumed p p' s s')"
  by (cases r') (auto simp: same_lowering_def)

lemma same_lowering_Insert:
  "resumed p p' s s' \<Longrightarrow> same_lowering p p' (Insert Folder I s) (Insert Folder I s')"
  "resumed p p' s s' \<Longrightarrow> same_lowering p p' (InsertRaw I s) (InsertRaw I s')"
  using resumed_Insert [of p p' s s' Folder I] resumed_InsertRaw [of p p' s s' I]
  by (simp_all add: same_lowering_def)

lemma same_lowering_apfst:
  "same_lowering p p' r r' \<Longrightarrow> same_lowering p p' (apfst f r) (apfst f r')"
  by (simp add: same_lowering_def)

lemma same_lowering_codegen:
  "resumed p p' s s' \<Longrightarrow> same_lowering p p' (codegen Folder e s) (codegen Folder e s')"
  "resumed p p' s s' \<Longrightarrow>
   same_lowering p p' (codegen_args Folder es vs s) (codegen_args Folder es vs s')"
proof (induction Folder e s and Folder es vs s arbitrary: s' and s'
    rule: codegen_codegen_args.induct)
  case (1 Folder Val s)
  then show ?case by simp
next
  case (2 Folder Name s)
  note r = "2.prems"
  from r resumed_LogError [OF r] resumed_LogError [OF resumed_update(2) [OF r]] show ?case
    by (auto simp: resumed_fields [OF r] split: option.splits)
next
  case (3 Folder Op LHS RHS s)
  obtain L s1 where l: "codegen Folder LHS s = (L, s1)" by force
  with "3.IH"(1) [OF "3.prems"] obtain s1' where l': "codegen Folder LHS s' = (L, s1')"
    and r1: "resumed p p' s1 s1'" by auto
  obtain R s2 where r: "codegen Folder RHS s1 = (R, s2)" by force
  with "3.IH"(2) [OF l [symmetric] r1] obtain s2' where r': "codegen Folder RHS s1' = (R, s2')"
    and r2: "resumed p p' s2 s2'" by auto
  have cmp: "same_lowering p p'
      (case Insert Folder (FCmpULT a b) s2 of (L1, s3) \<Rightarrow> apfst Some (Insert Folder (UIToFP L1) s3))
      (case Insert Folder (FCmpULT a b) s2' of (L1, s3) \<Rightarrow> apfst Some (Insert Folder (UIToFP L1) s3))"
    for a b
  proof -
    obtain L1 s3 where i: "Insert Folder (FCmpULT a b) s2 = (L1, s3)" by force
    with same_lowering_Insert(1) [OF r2, of Folder "FCmpULT a b"] obtain s3' where
      i': "Insert Folder (FCmpULT a b) s2' = (L1, s3')" and r3: "resumed p p' s3 s3'" by auto
    show ?thesis
      unfolding i i' prod.case
      by (rule same_lowering_apfst) (rule same_lowering_Insert(1) [OF r3])
  qed
  show ?case
    unfolding codegen.simps l l' r r' prod.case
    using r2 cmp
    by (auto simp del: same_lowering_simp
          intro!: same_lowering_apfst same_lowering_Insert resumed_LogError
          intro: same_lowering_simp [THEN iffD2] split: option.splits)
next
  case (4 Folder Callee Args s)
  note r = "4.prems"
  note m = resumed_fields(1) [OF r]
  show ?case
  proof (cases "getFunction Callee (TheModule s)")
    case None
    with resumed_LogError [OF r] show ?thesis by (simp add: m)
  next
    case (Some CalleeF)
    show ?thesis
    proof (cases "length (arg_names (TheModule s) CalleeF) \<noteq> length Args")
      case True
      with Some resumed_LogError [OF r] show ?thesis by (simp add: m)
    next
      case False
      obtain a s1 where a: "codegen_args Folder Args [] s = (a, s1)" by force
      with "4.IH" [OF Some False r] obtain s1' where a': "codegen_args Folder Args [] s' = (a, s1')"
        and r1: "resumed p p' s1 s1'" by auto
      from Some False r1 show ?thesis
        unfolding codegen.simps m a a'
        by (auto simp del: same_lowering_simp
              intro!: same_lowering_apfst same_lowering_Insert
              intro: same_lowering_simp [THEN iffD2] split: option.splits)
    qed
  qed
next
  case (5 Folder ArgsV s)
  then show ?case by simp
next
  case (6 Folder Arg Args ArgsV s)
  obtain a s1 where a: "codegen Folder Arg s = (a, s1)" by force
  with "6.IH"(1) [OF "6.prems"] obtain s1' where a': "codegen Folder Arg s' = (a, s1')"
    and r1: "resumed p p' s1 s1'" by auto
  show ?case
  proof (cases a)
    case None
    with a a' r1 show ?thesis by simp
  next
    case (Some V)
    from "6.IH"(2) [OF a [symmetric] Some r1] a a' Some show ?thesis
      by (simp del: same_lowering_simp)
  qed
qed

lemma same_lowering_PrototypeAST_codegen:
  assumes r: "resumed p p' s s'"
  shows "same_lowering p p' (PrototypeAST_codegen P s) (PrototypeAST_codegen P s')"
  using resumed_update(1) [OF r]
  by (simp add: PrototypeAST_codegen_def resumed_fields [OF r] case_prod_beta same_lowering_def)

lemma resumed_bind_arguments:
  assumes r: "resumed p p' s s'"
  shows "resumed p p' (bind_arguments F s) (bind_arguments F s')"
  unfolding bind_arguments_def resumed_fields [OF r] by (rule resumed_update(2) [OF r])

lemma same_lowering_FunctionAST_codegen:
  assumes r: "resumed p p' s s'"
  shows "same_lowering p p' (FunctionAST_codegen Folder FnAST s) (FunctionAST_codegen Folder FnAST s')"
proof -
  let ?P = "\<lambda>s. case getFunction (getName (Proto FnAST)) (TheModule s) of
              Some F \<Rightarrow> (F, s)
            | None \<Rightarrow> PrototypeAST_codegen (Proto FnAST) s"
  obtain F s1 where a: "?P s = (F, s1)" by force
  have "same_lowering p p' (?P s) (?P s')"
    using r same_lowering_PrototypeAST_codegen [OF r]
    by (simp add: resumed_fields [OF r] split: option.splits)
  with a obtain s1' where a': "?P s' = (F, s1')" and r1: "resumed p p' s1 s1'" by auto
  note m = resumed_fields(1) [OF r1]
  show ?thesis
  proof (cases "blocks (TheModule s1) F \<noteq> []")
    case True
    with resumed_LogError [OF r1] show ?thesis
      unfolding FunctionAST_codegen_def a a' prod.case by (simp add: m)
  next
    case False
    obtain BB M where b: "BasicBlock_Create F (TheModule s1) = (BB, M)" by force
    let ?s3 = "bind_arguments F (s1\<lparr>TheModule := M, Builder := Some (F, BB)\<rparr>)"
    let ?s3' = "bind_arguments F (s1'\<lparr>TheModule := M, Builder := Some (F, BB)\<rparr>)"
    have r3: "resumed p p' ?s3 ?s3'"
      by (intro resumed_bind_arguments resumed_update r1)
    obtain v s4 where c: "codegen Folder (Body FnAST) ?s3 = (v, s4)" by force
    with same_lowering_codegen(1) [OF r3, of Folder "Body FnAST"] obtain s4' where
      c': "codegen Folder (Body FnAST) ?s3' = (v, s4')" and r4: "resumed p p' s4 s4'" by auto
    from False show ?thesis
      unfolding FunctionAST_codegen_def a a' prod.case m b Let_def c c'
      using resumed_InsertRaw [OF r4] resumed_update(1) [OF r4]
      by (auto simp: resumed_fields [OF r4] split: option.splits)
  qed
qed

lemma resumed_cout: "resumed p p' s s' \<Longrightarrow> resumed p p' (cout m s) (cout m s')"
  unfolding cout_def by (rule resumed_update)

lemma resumed_print_function:
  assumes r: "resumed p p' s s'"
  shows "resumed p p' (print_function F s) (print_function F s')"
  using r resumed_update(4) [OF r]
  by (simp add: print_function_def resumed_fields [OF r] split: option.splits)

lemma resumed_HandleDefinition:
  assumes r: "resumed p p' s s'"
  shows "resumed_result p p' (HandleDefinition strtod Folder n s) (HandleDefinition strtod Folder n s')"
proof -
  have "resumed_result p p'
      (case FunctionAST_codegen Folder fn s1 of
         (Some FnIR, s2) \<Rightarrow>
           Done () (cout [] (print_function FnIR (cout ''Parsed a function definition:'' s2)))
       | (None, s2) \<Rightarrow> Done () s2)
      (case FunctionAST_codegen Folder fn s1' of
         (Some FnIR, s2) \<Rightarrow>
           Done () (cout [] (print_function FnIR (cout ''Parsed a function definition:'' s2)))
       | (None, s2) \<Rightarrow> Done () s2)"
    if r1: "resumed p p' s1 s1'" for fn s1 s1'
  proof -
    obtain v s2 where c: "FunctionAST_codegen Folder fn s1 = (v, s2)" by force
    with same_lowering_FunctionAST_codegen [OF r1, of Folder fn] obtain s2' where
      c': "FunctionAST_codegen Folder fn s1' = (v, s2')" and r2: "resumed p p' s2 s2'" by auto
    show ?thesis
      unfolding c c' prod.case using r2
      by (auto intro!: resumed_cout resumed_print_function split: option.splits)
  qed
  then show ?thesis
    unfolding HandleDefinition_def using r
    by (auto intro!: resumed_bind [OF resumed_ParseDefinition] resumed_next split: option.splits)
qed

lemma resumed_HandleExtern:
  assumes r: "resumed p p' s s'"
  shows "resumed_result p p' (HandleExtern strtod n s) (HandleExtern strtod n s')"
proof -
  have "resumed_result p p'
      (case PrototypeAST_codegen P s1 of
         (FnIR, s2) \<Rightarrow> Done () (cout [] (print_function FnIR (cout ''Parsed an extern:'' s2))))
      (case PrototypeAST_codegen P s1' of
         (FnIR, s2) \<Rightarrow> Done () (cout [] (print_function FnIR (cout ''Parsed an extern:'' s2))))"
    if r1: "resumed p p' s1 s1'" for P s1 s1'
  proof -
    obtain v s2 where c: "PrototypeAST_codegen P s1 = (v, s2)" by force
    with same_lowering_PrototypeAST_codegen [OF r1, of P] obtain s2' where
      c': "PrototypeAST_codegen P s1' = (v, s2')" and r2: "resumed p p' s2 s2'" by auto
    show ?thesis
      unfolding c c' prod.case using r2
      by (auto intro!: resumed_cout resumed_print_function)
  qed
  then show ?thesis
    unfolding HandleExtern_def ParseExtern_def using r
    by (auto intro!: resumed_bind [OF resumed_ParsePrototype] resumed_next split: option.splits)
qed

lemma resumed_HandleTopLevelExpression:
  assumes r: "resumed p p' s s'"
  shows "resumed_result p p' (HandleTopLevelExpression strtod Folder n s)
    (HandleTopLevelExpression strtod Folder n s')"
proof -
  have "resumed_result p p'
      (case FunctionAST_codegen Folder fn s1 of
         (Some FnIR, s2) \<Rightarrow>
           let s3 = cout [] (print_function FnIR (cout ''Parsed a top-level expression:'' s2))
           in Done () (s3\<lparr>TheModule := eraseFromParent FnIR (TheModule s3)\<rparr>)
       | (None, s2) \<Rightarrow> Done () s2)
      (case FunctionAST_codegen Folder fn s1' of
         (Some FnIR, s2) \<Rightarrow>
           let s3 = cout [] (print_function FnIR (cout ''Parsed a top-level expression:'' s2))
           in Done () (s3\<lparr>TheModule := eraseFromParent FnIR (TheModule s3)\<rparr>)
       | (None, s2) \<Rightarrow> Done () s2)"
    if r1: "resumed p p' s1 s1'" for fn s1 s1'
  proof -
    obtain v s2 where c: "FunctionAST_codegen Folder fn s1 = (v, s2)" by force
    with same_lowering_FunctionAST_codegen [OF r1, of Folder fn] obtain s2' where
      c': "FunctionAST_codegen Folder fn s1' = (v, s2')" and r2: "resumed p p' s2 s2'" by auto
    have r3: "resumed p p' (cout [] (print_function F (cout m s2)))
        (cout [] (print_function F (cout m s2')))" for F m
      by (intro resumed_cout resumed_print_function r2)
    show ?thesis
      unfolding c c' prod.case Let_def using r2 resumed_update(1) [OF r3]
      by (auto simp: resumed_fields [OF r3] split: option.splits)
  qed
  then show ?thesis
    unfolding HandleTopLevelExpression_def using r
    by (auto intro!: resumed_bind [OF resumed_ParseTopLevelExpr] resumed_next split: option.splits)
qed

lemma resumed_MainLoop:
  "resumed p p' s s' \<Longrightarrow>
   resumed_result p p' (MainLoop strtod Folder n s) (MainLoop strtod Folder n s')"
proof (induction n arbitrary: s s')
  case 0
  show ?case by simp
next
  case (Suc n)
  note r = Suc.prems
  show ?case
    unfolding MainLoop.simps resumed_CurTok [OF r] using r
    by (auto intro!: resumed_getNextToken resumed_same_input resumed_cout Suc.IH
          resumed_bind [OF resumed_HandleDefinition] resumed_bind [OF resumed_HandleExtern]
          resumed_bind [OF resumed_HandleTopLevelExpression])
qed

lemma skip_whitespace_idem: "skip_whitespace (skip_whitespace t) = skip_whitespace t"
proof (induction t rule: skip_whitespace.induct)
  case (1 t)
  show ?case
  proof (cases "isspace (LastChar t)")
    case True
    with 1 show ?thesis by (subst (2 3) skip_whitespace.simps) simp
  next
    case False
    then have "skip_whitespace t = t" by (subst skip_whitespace.simps) simp
    then show ?thesis by simp
  qed
qed

lemma getNextToken_space:
  assumes "isspace (LastChar s)"
  shows "getNextToken strtod s = getNextToken strtod (getchar s)"
proof -
  have "skip_whitespace s = skip_whitespace (getchar s)"
    using assms by (subst skip_whitespace.simps) simp
  then have "gettok strtod s = gettok strtod (getchar s)"
    by (subst (1 2) gettok.simps) (simp add: Let_def skip_whitespace_idem)
  then show ?thesis by (simp add: getNextToken_def)
qed

lemma table_extends_same_answers: "table_extends T T' \<Longrightarrow> same_answers T T'"
  unfolding table_extends_def same_answers_def
proof
  fix c
  assume "\<forall>c. T' c = T c \<or> T c = None \<and> T' c = Some 0"
  then have "T' c = T c \<or> T c = None \<and> T' c = Some 0" ..
  then show "(case T c of None \<Rightarrow> 0 | Some q \<Rightarrow> q) = (case T' c of None \<Rightarrow> 0 | Some q \<Rightarrow> q)"
    by auto
qed

lemma parse_fails_effect:
  assumes "parse_fails strtod n s s1"
  shows "parse_effect s (None :: unit option) s1"
  using assms by (intro failed_parse [of strtod n]) (auto simp: parse_fails_def split: if_splits)

lemma parse_fails_loop:
  assumes "parse_fails strtod n s s1"
  shows "MainLoop strtod Folder (Suc n) s =
    bind (getNextToken strtod s1) (\<lambda>_ s2. MainLoop strtod Folder n s2)"
  using assms
  by (auto simp: parse_fails_def HandleDefinition_def HandleExtern_def
        HandleTopLevelExpression_def bind_assoc split: if_splits)

lemma resumed_after_failure:
  assumes f: "parse_fails strtod n s s1" and l: "EOF \<le> LastChar s1"
  shows "resumed_result (out s) (out s1)
    (bind (getNextToken strtod (s\<lparr>stdin := stdin s1, LastChar := LastChar s1\<rparr>))
       (\<lambda>_ s2. MainLoop strtod Folder n s2))
    (MainLoop strtod Folder (Suc n) s)"
proof -
  from parse_fails_effect [OF f] l
  have "same_input (out s) (out s1) (s\<lparr>stdin := stdin s1, LastChar := LastChar s1\<rparr>) s1"
    by (auto simp: parse_effect_def same_input_def same_output_def
          intro: table_extends_same_answers)
  then show ?thesis
    unfolding parse_fails_loop [OF f]
    by (rule resumed_getNextToken) (rule resumed_MainLoop)
qed

lemma startup_lexed:
  "startup strtod input =
     bind (getNextToken strtod (cout ''ready> '' (install_operators (initial_state strtod input))))
       (\<lambda>_ s. Done () s)"
proof -
  let ?i = "cout ''ready> '' (install_operators (initial_state strtod input))"
  have "InitializeModule a = a" if "getNextToken strtod ?i = Done t a" for t a
  proof -
    from postD(1) [OF getNextToken_post that]
    have "TheModule a = \<lparr>Functions = [], NextAddr = 0\<rparr>" "Builder a = None"
      by (simp_all add: lexer_step_def cout_def install_operators_def initial_state_def)
    then show ?thesis by (cases a) (simp add: InitializeModule_def)
  qed
  then show ?thesis
    unfolding startup_def by (cases "getNextToken strtod ?i") simp_all
qed

lemma resumed_program:
  assumes st: "startup strtod input = Done () s" and f: "parse_fails strtod n s s1"
    and sp: "isspace (LastChar s1)"
  shows "\<exists>m. out s1 = [Stdout ''ready> '', Stdout (''Error: '' @ m)]"
    and "resumed_result [Stdout ''ready> ''] (out s1)
      (main strtod Folder n (stdin s1)) (main strtod Folder (Suc n) input)"
proof -
  let ?i = "\<lambda>x. cout ''ready> '' (install_operators (initial_state strtod x))"
  let ?K = "\<lambda>(_ :: int) s2. bind (MainLoop strtod Folder n s2) (\<lambda>_ s3.
       Done (0 :: int) (s3\<lparr>out := out s3 @ [PrintModule (TheModule s3)]\<rparr>))"
  from st obtain t where g: "getNextToken strtod (?i input) = Done t s"
    unfolding startup_lexed by (cases "getNextToken strtod (?i input)") simp_all
  from postD(1) [OF getNextToken_post g]
  have s: "out s = [Stdout ''ready> '']" "TheModule s = \<lparr>Functions = [], NextAddr = 0\<rparr>"
    "Builder s = None" "NamedValues s = Map.empty"
    "BinopPrecedence s = BinopPrecedence (?i (stdin s1))"
    by (simp_all add: lexer_step_def cout_def install_operators_def initial_state_def)
  note e = parse_fails_effect [OF f]
  from e s show "\<exists>m. out s1 = [Stdout ''ready> '', Stdout (''Error: '' @ m)]"
    by (simp add: parse_effect_def)
  have "same_answers (BinopPrecedence (?i (stdin s1))) (BinopPrecedence s1)"
    using e s(5) by (intro table_extends_same_answers) (simp add: parse_effect_def)
  with e s(1-4) have i: "same_input [Stdout ''ready> ''] (out s1) (getchar (?i (stdin s1))) (getchar s1)"
    by (auto simp: parse_effect_def same_input_def same_output_def getchar_def EOF_le_of_char
          cout_def install_operators_def initial_state_def split: list.splits)
  have "isspace (LastChar (?i (stdin s1)))"
    by (simp add: cout_def install_operators_def initial_state_def isspace_def)
  then have a: "main strtod Folder n (stdin s1) =
      bind (getNextToken strtod (getchar (?i (stdin s1)))) ?K"
    unfolding main_def startup_lexed bind_assoc by (simp add: getNextToken_space)
  have b: "main strtod Folder (Suc n) input = bind (getNextToken strtod (getchar s1)) ?K"
    unfolding main_def st bind_simps parse_fails_loop [OF f] bind_assoc
    by (simp add: getNextToken_space [OF sp])
  show "resumed_result [Stdout ''ready> ''] (out s1)
      (main strtod Folder n (stdin s1)) (main strtod Folder (Suc n) input)"
    unfolding a b
  proof (rule resumed_getNextToken [OF i], rule resumed_bind [OF resumed_MainLoop])
    fix s3 s3' :: "'a state"
    assume r: "resumed [Stdout ''ready> ''] (out s1) s3 s3'"
    from resumed_update(4) [OF r]
    show "resumed_result [Stdout ''ready> ''] (out s1)
        (Done (0 :: int) (s3\<lparr>out := out s3 @ [PrintModule (TheModule s3)]\<rparr>))
        (Done 0 (s3'\<lparr>out := out s3' @ [PrintModule (TheModule s3')]\<rparr>))"
      by (simp add: resumed_fields [OF r])
  qed
qed

subsection \<open>Operator precedence in the parser\<close>

text \<open>
  C6. After \<open>main\<close> has installed the operators and primed the first token, take an input
  \<open>1 op1 2 op2 3\<close> of two installed operators, the second of higher precedence than the
  first. \<open>ParseExpression\<close> returns the tree \<open>BinaryOp(op1, 1, BinaryOp(op2, 2, 3))\<close>: the
  operator on the right binds its operands first. This holds for every budget of at
  least 8 steps; the numbers are what \<open>strtod\<close> makes of the literals' texts.
\<close>

theorem parse_precedence:
  "\<forall>op1 \<in> set ''<+-*/''. \<forall>op2 \<in> set ''<+-*/''. installed op1 < installed op2 \<longrightarrow>
     (\<exists>s'. bind (startup strtod (''1'' @ [op1] @ ''2'' @ [op2] @ ''3''))
             (\<lambda>_. ParseExpression strtod (8 + k)) =
        Done (Some (BinaryExprAST op1 (NumberExprAST (strtod ''1''))
                     (BinaryExprAST op2 (NumberExprAST (strtod ''2''))
                                        (NumberExprAST (strtod ''3''))))) s')"
  by (simp add: lexer_eval parser_eval driver_eval eval_nat_numeral installed_def)

text \<open>
  The theorem at \<open>+\<close> and \<open>*\<close>, and at \<open><\<close> and \<open>+\<close>: the input \<open>1+2*3\<close> yields
  \<open>BinaryOp('+', 1, BinaryOp('*', 2, 3))\<close> and \<open>1<2+3\<close> yields
  \<open>BinaryOp('<', 1, BinaryOp('+', 2, 3))\<close>.
\<close>

theorem parse_precedence_witness:
  "CHR ''+'' \<in> set ''<+-*/'' \<and> CHR ''*'' \<in> set ''<+-*/'' \<and> CHR ''<'' \<in> set ''<+-*/'' \<and>
   installed CHR ''+'' < installed CHR ''*'' \<and> installed CHR ''<'' < installed CHR ''+'' \<and>
   (\<exists>s'. bind (startup (\<lambda>t. t) ''1+2*3'') (\<lambda>_. ParseExpression (\<lambda>t. t) 8) =
      Done (Some (BinaryExprAST CHR ''+'' (NumberExprAST ''1'')
                   (BinaryExprAST CHR ''*'' (NumberExprAST ''2'') (NumberExprAST ''3'')))) s') \<and>
   (\<exists>s'. bind (startup (\<lambda>t. t) ''1<2+3'') (\<lambda>_. ParseExpression (\<lambda>t. t) 8) =
      Done (Some (BinaryExprAST CHR ''<'' (NumberExprAST ''1'')
                   (BinaryExprAST CHR ''+'' (NumberExprAST ''2'') (NumberExprAST ''3'')))) s')"
  using parse_precedence [where strtod = "\<lambda>t. t" and k = 0, THEN bspec, THEN bspec,
      of "CHR ''+''" "CHR ''*''"]
    parse_precedence [where strtod = "\<lambda>t. t" and k = 0, THEN bspec, THEN bspec,
      of "CHR ''<''" "CHR ''+''"]
  by (simp add: installed_def install_operators_def initial_state_def)

text \<open>
  C7. On an input \<open>a op1 b op2 c\<close> of two installed operators, the second of a precedence
  that is not higher than the first's, \<open>ParseExpression\<close> returns
  \<open>BinaryOp(op2, BinaryOp(op1, a, b), c)\<close>: operators of equal precedence fold to the
  left, and the parser descends into the right operand only before an operator of
  strictly higher precedence. This holds for every budget of at least 8 steps.
\<close>

theorem parse_left_assoc:
  "\<forall>op1 \<in> set ''<+-*/''. \<forall>op2 \<in> set ''<+-*/''. installed op2 \<le> installed op1 \<longrightarrow>
     (\<exists>s'. bind (startup strtod (''a'' @ [op1] @ ''b'' @ [op2] @ ''c''))
             (\<lambda>_. ParseExpression strtod (8 + k)) =
        Done (Some (BinaryExprAST op2
                     (BinaryExprAST op1 (VariableExprAST ''a'') (VariableExprAST ''b''))
                     (VariableExprAST ''c''))) s')"
  by (simp add: lexer_eval parser_eval driver_eval eval_nat_numeral installed_def)

text \<open>
  The theorem at \<open>+\<close> and \<open>+\<close>: the input \<open>a+b+c\<close> yields
  \<open>BinaryOp('+', BinaryOp('+', a, b), c)\<close>.
\<close>

theorem parse_left_assoc_witness:
  "CHR ''+'' \<in> set ''<+-*/'' \<and> installed CHR ''+'' \<le> installed CHR ''+'' \<and>
   (\<exists>s'. bind (startup (\<lambda>t. t) ''a+b+c'') (\<lambda>_. ParseExpression (\<lambda>t. t) 8) =
      Done (Some (BinaryExprAST CHR ''+''
                   (BinaryExprAST CHR ''+'' (VariableExprAST ''a'') (VariableExprAST ''b''))
                   (VariableExprAST ''c''))) s')"
  using parse_left_assoc [where strtod = "\<lambda>t. t" and k = 0, THEN bspec, THEN bspec,
      of "CHR ''+''" "CHR ''+''"]
  by (simp add: installed_def install_operators_def initial_state_def)

subsection \<open>Calls and redefinitions\<close>

text \<open>
  C1. The program run on \<open>extern foo(x) foo(1,2)\<close>, for every budget of at least 12 steps:
  the extern is declared under the name \<open>foo_ext\<close>, the call looks up \<open>foo\<close>, and its
  lowering fails with "Unknown function referenced", not with the argument-count
  error. No call instruction is inserted: the anonymous function is removed and the
  module holds the declaration alone. Nor is this input special: the functions of the
  module have names with an underscore, the callees that the lexer reads have none, so
  on no input and with no budget does a run write the argument-count error.
\<close>

theorem call_after_extern:
  "(\<exists>s. main strtod Folder (12 + k) ''extern foo(x) foo(1,2)'' = Done 0 s \<and>
     out s =
       [Stdout ''ready> '',
        Stdout ''Parsed an extern:'',
        PrintFunction \<lparr>fn_name = ''foo_ext'', fn_args = [''x''], fn_blocks = []\<rparr>,
        Stdout [],
        Stdout ''Error: Unknown function referenced'',
        PrintModule \<lparr>Functions = [(0, \<lparr>fn_name = ''foo_ext'', fn_args = [''x''], fn_blocks = []\<rparr>)],
                     NextAddr = 2\<rparr>]) \<and>
   Stdout ''Error: Incorrect # arguments passed'' \<notin> set (trace (main strtod Folder n input))"
proof
  show "\<exists>s. main strtod Folder (12 + k) ''extern foo(x) foo(1,2)'' = Done 0 s \<and>
     out s =
       [Stdout ''ready> '',
        Stdout ''Parsed an extern:'',
        PrintFunction \<lparr>fn_name = ''foo_ext'', fn_args = [''x''], fn_blocks = []\<rparr>,
        Stdout [],
        Stdout ''Error: Unknown function referenced'',
        PrintModule \<lparr>Functions = [(0, \<lparr>fn_name = ''foo_ext'', fn_args = [''x''], fn_blocks = []\<rparr>)],
                     NextAddr = 2\<rparr>]"
    by (simp add: lexer_eval parser_eval driver_eval codegen_eval eval_nat_numeral)
  show "Stdout ''Error: Incorrect # arguments passed'' \<notin> set (trace (main strtod Folder n input))"
    by (rule arity_error_unreachable)
qed

text \<open>
  C4. Lowering a definition whose name already has a function with a body returns a
  null pointer, writes "Function cannot be redefined." and changes nothing else: the
  module, the symbol table and the builder are as before.
\<close>

theorem redefinition_rejected:
  assumes "getFunction (getName (Proto FnAST)) (TheModule s) = Some F"
      and "blocks (TheModule s) F \<noteq> []"
  shows "FunctionAST_codegen Folder FnAST s =
           (None, s\<lparr>out := out s @ [Stdout ''Error: Function cannot be redefined.'']\<rparr>)"
  using assms by (simp add: FunctionAST_codegen_def LogError_def)

theorem redefinition_rejected_witness:
  "getFunction ''foo_def''
     (TheModule (snd (FunctionAST_codegen (\<lambda>_. None)
        (FunctionAST (PrototypeAST ''foo_def'' [''x'']) (VariableExprAST ''x''))
        (InitializeModule (initial_state (\<lambda>t. t) []))))) = Some 0 \<and>
   blocks
     (TheModule (snd (FunctionAST_codegen (\<lambda>_. None)
        (FunctionAST (PrototypeAST ''foo_def'' [''x'']) (VariableExprAST ''x''))
        (InitializeModule (initial_state (\<lambda>t. t) []))))) 0 = [[Ret (Argument 0 0)]] \<and>
   TheModule (snd (FunctionAST_codegen (\<lambda>_. None)
     (FunctionAST (PrototypeAST ''foo_def'' [''x''])
        (BinaryExprAST CHR ''+'' (VariableExprAST ''x'') (NumberExprAST ''1'')))
     (snd (FunctionAST_codegen (\<lambda>_. None)
        (FunctionAST (PrototypeAST ''foo_def'' [''x'']) (VariableExprAST ''x''))
        (InitializeModule (initial_state (\<lambda>t. t) [])))))) =
   \<lparr>Functions = [(0, \<lparr>fn_name = ''foo_def'', fn_args = [''x''], fn_blocks = [[Ret (Argument 0 0)]]\<rparr>)],
    NextAddr = 1\<rparr>"
proof -
  let ?s1 = "snd (FunctionAST_codegen (\<lambda>_. None)
        (FunctionAST (PrototypeAST ''foo_def'' [''x'']) (VariableExprAST ''x''))
        (InitializeModule (initial_state (\<lambda>t. t) [])))"
  let ?F2 = "FunctionAST (PrototypeAST ''foo_def'' [''x''])
        (BinaryExprAST CHR ''+'' (VariableExprAST ''x'') (NumberExprAST ''1''))"
  have m: "TheModule ?s1 =
      \<lparr>Functions = [(0, \<lparr>fn_name = ''foo_def'', fn_args = [''x''], fn_blocks = [[Ret (Argument 0 0)]]\<rparr>)],
       NextAddr = 1\<rparr>"
    by (simp add: codegen_eval driver_eval)
  have g: "getFunction (getName (Proto ?F2)) (TheModule ?s1) = Some 0"
    by (simp add: m getFunction_def)
  have b: "blocks (TheModule ?s1) 0 \<noteq> []"
    by (simp add: m blocks_def function_at_def)
  have b': "blocks (TheModule ?s1) 0 = [[Ret (Argument 0 0)]]"
    by (simp add: m blocks_def function_at_def)
  from redefinition_rejected [OF g b, of "\<lambda>_. None"] g b' m show ?thesis
    by simp
qed

subsection \<open>The symbol table\<close>

text \<open>
  C2 (as amended). When the lowering of a function's body starts, the keys of the symbol
  table are exactly the names of the function's arguments, each bound to its argument
  (the argument of that index; were a name to occur twice, the later argument), with
  nothing left of an earlier function. Lowering an expression never removes or rebinds
  a key and adds only keys bound to a null pointer: a variable reference whose name is
  absent fails with "Unknown variable name" and leaves that name in the table, bound to
  null. So the names bound to a value stay exactly the function's argument names, each
  still bound to its argument, up to the end of a successful lowering.
\<close>

theorem symbol_table_during_lowering:
  "dom (NamedValues (bind_arguments F s)) = set (arg_names (TheModule s) F) \<and>
   live_names (NamedValues (bind_arguments F s)) = set (arg_names (TheModule s) F) \<and>
   (i < length (arg_names (TheModule s) F) \<and>
    arg_names (TheModule s) F ! i \<notin> set (drop (Suc i) (arg_names (TheModule s) F)) \<longrightarrow>
      NamedValues (bind_arguments F s) (arg_names (TheModule s) F ! i) =
        Some (Some (Argument F i))) \<and>
   (codegen Folder e s0 = (r, s1) \<longrightarrow>
      null_extends (NamedValues s0) (NamedValues s1) \<and>
      live_names (NamedValues s1) = live_names (NamedValues s0) \<and>
      (\<forall>K V. NamedValues s0 K = Some V \<longrightarrow> NamedValues s1 K = Some V) \<and>
      (\<forall>K. NamedValues s0 K = None \<longrightarrow> NamedValues s1 K = None \<or> NamedValues s1 K = Some None)) \<and>
   (NamedValues s0 N = None \<longrightarrow>
      codegen Folder (VariableExprAST N) s0 =
        (None, LogError ''Unknown variable name'' (s0\<lparr>NamedValues := (NamedValues s0)(N \<mapsto> None)\<rparr>))) \<and>
   (FunctionAST_codegen Folder FnAST s2 = (Some F', s3) \<longrightarrow>
      live_names (NamedValues s3) = set (arg_names (TheModule s3) F') \<and>
      (j < length (arg_names (TheModule s3) F') \<and>
       arg_names (TheModule s3) F' ! j \<notin> set (drop (Suc j) (arg_names (TheModule s3) F')) \<longrightarrow>
         NamedValues s3 (arg_names (TheModule s3) F' ! j) = Some (Some (Argument F' j))))"
proof (intro conjI impI allI)
  show "dom (NamedValues (bind_arguments F s)) = set (arg_names (TheModule s) F)"
    by (rule bind_arguments_names)
  show "live_names (NamedValues (bind_arguments F s)) = set (arg_names (TheModule s) F)"
    by (rule bind_arguments_names)
next
  assume "i < length (arg_names (TheModule s) F) \<and>
    arg_names (TheModule s) F ! i \<notin> set (drop (Suc i) (arg_names (TheModule s) F))"
  then show "NamedValues (bind_arguments F s) (arg_names (TheModule s) F ! i) =
        Some (Some (Argument F i))"
    by (intro bind_arguments_value) simp_all
next
  assume c: "codegen Folder e s0 = (r, s1)"
  with codegen_effect(1) [of s0 Folder e] show n: "null_extends (NamedValues s0) (NamedValues s1)"
    by (simp add: codegen_effect_def)
  from c show "live_names (NamedValues s1) = live_names (NamedValues s0)"
    by (rule codegen_live_names)
  show "NamedValues s1 K = Some V" if "NamedValues s0 K = Some V" for K V
    using n that by (rule null_extends_kept)
  show "NamedValues s1 K = None \<or> NamedValues s1 K = Some None" if "NamedValues s0 K = None" for K
    using n that by (auto simp: null_extends_def dest: spec [of _ K])
next
  assume "NamedValues s0 N = None"
  then show "codegen Folder (VariableExprAST N) s0 =
        (None, LogError ''Unknown variable name'' (s0\<lparr>NamedValues := (NamedValues s0)(N \<mapsto> None)\<rparr>))"
    by simp
next
  assume f: "FunctionAST_codegen Folder FnAST s2 = (Some F', s3)"
  then show "live_names (NamedValues s3) = set (arg_names (TheModule s3) F')"
    by (rule FunctionAST_codegen_live_names)
  assume "j < length (arg_names (TheModule s3) F') \<and>
       arg_names (TheModule s3) F' ! j \<notin> set (drop (Suc j) (arg_names (TheModule s3) F'))"
  with f show "NamedValues s3 (arg_names (TheModule s3) F' ! j) = Some (Some (Argument F' j))"
    by (intro FunctionAST_codegen_bindings [OF f]) simp_all
qed

text \<open>
  The theorem at work: the argument of \<open>f_def(x)\<close> bound to argument 0, the absent
  variable \<open>y\<close> lowered with \<open>x\<close> still bound, and the definition \<open>g_def(a b) b\<close> lowered
  with \<open>a\<close> and \<open>b\<close> bound to its arguments 0 and 1.
\<close>

theorem symbol_table_during_lowering_witness:
  "(let s = snd (PrototypeAST_codegen (PrototypeAST ''f_def'' [''x''])
                  (InitializeModule (initial_state (\<lambda>t. t) [])));
        s0 = bind_arguments 0 s;
        s1 = snd (codegen (\<lambda>_. None) (VariableExprAST ''y'') s0);
        FnAST = FunctionAST (PrototypeAST ''g_def'' [''a'', ''b'']) (VariableExprAST ''b'');
        s3 = snd (FunctionAST_codegen (\<lambda>_. None) FnAST s0)
    in arg_names (TheModule s) 0 = [''x''] \<and>
       dom (NamedValues s0) = {''x''} \<and>
       live_names (NamedValues s0) = {''x''} \<and>
       NamedValues s0 ''x'' = Some (Some (Argument 0 0)) \<and>
       NamedValues s0 ''y'' = None \<and>
       fst (codegen (\<lambda>_. None) (VariableExprAST ''y'') s0) = None \<and>
       live_names (NamedValues s1) = {''x''} \<and>
       NamedValues s1 ''x'' = Some (Some (Argument 0 0)) \<and>
       NamedValues s1 ''y'' = Some None \<and>
       fst (FunctionAST_codegen (\<lambda>_. None) FnAST s0) = Some 1 \<and>
       arg_names (TheModule s3) 1 = [''a'', ''b''] \<and>
       live_names (NamedValues s3) = {''a'', ''b''} \<and>
       NamedValues s3 ''a'' = Some (Some (Argument 1 0)) \<and>
       NamedValues s3 ''b'' = Some (Some (Argument 1 1)))"
proof -
  let ?A = "snd (PrototypeAST_codegen (PrototypeAST ''f_def'' [''x''])
                  (InitializeModule (initial_state (\<lambda>t. t) [])))"
  let ?B = "bind_arguments 0 ?A"
  let ?Fn = "FunctionAST (PrototypeAST ''g_def'' [''a'', ''b'']) (VariableExprAST ''b'')"
  let ?Folder = "\<lambda>_ :: string Value. None :: string Value option"
  let ?c = "codegen ?Folder (VariableExprAST ''y'') ?B"
  let ?f = "FunctionAST_codegen ?Folder ?Fn ?B"
  have a: "arg_names (TheModule ?A) 0 = [''x'']"
    by (simp add: codegen_eval driver_eval)
  have n: "NamedValues ?B ''y'' = None"
    by (simp add: codegen_eval driver_eval)
  have f: "?f = (Some 1, snd ?f)"
    by (simp add: codegen_eval driver_eval)
  have a': "arg_names (TheModule (snd ?f)) 1 = [''a'', ''b'']"
    by (simp add: codegen_eval driver_eval)
  have c: "?c = (fst ?c, snd ?c)"
    by simp
  note T = symbol_table_during_lowering [where F = 0 and s = ?A and Folder = ?Folder
      and e = "VariableExprAST ''y''" and ?s0.0 = ?B and r = "fst ?c" and ?s1.0 = "snd ?c"
      and N = "''y''" and FnAST = ?Fn and ?s2.0 = ?B and F' = 1 and ?s3.0 = "snd ?f"]
  note Tc = T [THEN conjunct2, THEN conjunct2, THEN conjunct2, THEN conjunct1, THEN mp, OF c]
  note Tf = T [THEN conjunct2, THEN conjunct2, THEN conjunct2, THEN conjunct2, THEN conjunct2,
      THEN mp, OF f]
  have 1: "dom (NamedValues ?B) = {''x''}"
    using T [THEN conjunct1] by (simp only: a list.set)
  have 2: "live_names (NamedValues ?B) = {''x''}"
    using T [THEN conjunct2, THEN conjunct1] by (simp only: a list.set)
  have i0: "0 < length (arg_names (TheModule ?A) 0) \<and>
      arg_names (TheModule ?A) 0 ! 0 \<notin> set (drop (Suc 0) (arg_names (TheModule ?A) 0))"
    unfolding a by simp
  have 3: "NamedValues ?B ''x'' = Some (Some (Argument 0 0))"
    using T [where i = 0, THEN conjunct2, THEN conjunct2, THEN conjunct1, THEN mp, OF i0,
        unfolded a]
    by simp
  have 4: "fst ?c = None"
    using T [THEN conjunct2, THEN conjunct2, THEN conjunct2, THEN conjunct2, THEN conjunct1,
        THEN mp, OF n]
    by (simp only: fst_conv)
  have 5: "live_names (NamedValues (snd ?c)) = {''x''}"
    using Tc [THEN conjunct2, THEN conjunct1] by (simp only: 2)
  have 6: "NamedValues (snd ?c) ''x'' = Some (Some (Argument 0 0))"
    using Tc [THEN conjunct2, THEN conjunct2, THEN conjunct1, THEN spec, THEN spec, THEN mp, OF 3] .
  have 7: "NamedValues (snd ?c) ''y'' = Some None"
    using T [THEN conjunct2, THEN conjunct2, THEN conjunct2, THEN conjunct2, THEN conjunct1,
        THEN mp, OF n]
    by (simp add: LogError_def)
  have 8: "fst ?f = Some 1"
    by (subst f) (simp only: fst_conv)
  have 9: "live_names (NamedValues (snd ?f)) = {''a'', ''b''}"
    using Tf [THEN conjunct1] by (simp only: a' list.set)
  have j0: "0 < length (arg_names (TheModule (snd ?f)) 1) \<and>
      arg_names (TheModule (snd ?f)) 1 ! 0 \<notin> set (drop (Suc 0) (arg_names (TheModule (snd ?f)) 1))"
    unfolding a' by simp
  have j1: "1 < length (arg_names (TheModule (snd ?f)) 1) \<and>
      arg_names (TheModule (snd ?f)) 1 ! 1 \<notin> set (drop (Suc 1) (arg_names (TheModule (snd ?f)) 1))"
    unfolding a' by simp
  have 10: "NamedValues (snd ?f) ''a'' = Some (Some (Argument 1 0))"
    using T [where j = 0, THEN conjunct2, THEN conjunct2, THEN conjunct2, THEN conjunct2,
        THEN conjunct2, THEN mp, OF f, THEN conjunct2, THEN mp, OF j0, unfolded a']
    by simp
  have 11: "NamedValues (snd ?f) ''b'' = Some (Some (Argument 1 1))"
    using T [where j = 1, THEN conjunct2, THEN conjunct2, THEN conjunct2, THEN conjunct2,
        THEN conjunct2, THEN mp, OF f, THEN conjunct2, THEN mp, OF j1, unfolded a']
    by simp
  show ?thesis
    unfolding Let_def using a 1 2 3 n 4 5 6 7 8 a' 9 10 11 by (intro conjI)
qed

text \<open>
  C2 as stated fails: with the arguments of \<open>f_def(x)\<close> bound, lowering the reference to
  \<open>y\<close> changes the key set from \<open>{x}\<close> to \<open>{x, y}\<close>.
\<close>

theorem symbol_table_keys_counterexample:
  "(let s0 = bind_arguments 0
               (snd (PrototypeAST_codegen (PrototypeAST ''f_def'' [''x''])
                      (InitializeModule (initial_state (\<lambda>t. t) []))));
        s1 = snd (codegen (\<lambda>_. None) (VariableExprAST ''y'') s0)
    in dom (NamedValues s0) = {''x''} \<and> dom (NamedValues s1) = {''x'', ''y''})"
  by (simp add: codegen_eval driver_eval LogError_def insert_commute)

subsection \<open>The precedence table during parsing\<close>

text \<open>
  C3 (as amended). No parsing operation removes or changes an entry of the precedence
  table; the precedence lookup adds the entry \<open>c \<mapsto> 0\<close> for an ASCII token \<open>c\<close> that has
  none (and answers -1), changes nothing else, and leaves the state as it is for any
  other token; so after an expression has been parsed, the token that follows it has
  an entry whenever it is an ASCII character. The table is only extended in this way
  by the lookup itself, by the parsers of expressions, definitions, externs and
  top-level expressions, and by the whole main loop, whether they return or the process
  exits. From the table that \<open>main\<close> installs, the five operators keep their
  precedences \<open><\<close>:10, \<open>+\<close>:20, \<open>-\<close>:20, \<open>*\<close>:40, \<open>/\<close>:40 to the end of the run, every other
  character has no entry or the entry 0, and the precedence answered for a token never
  changes. A budget of four units for each character of the input and nine more is
  enough for the run to end.
\<close>

theorem precedence_table_kept:
  "(getTokPrecedence s = (p, s') \<longrightarrow> table_extends (BinopPrecedence s) (BinopPrecedence s')) \<and>
   (ParseExpression strtod n s = Done e s' \<or> ParseExpression strtod n s = Exited s' \<longrightarrow>
      table_extends (BinopPrecedence s) (BinopPrecedence s')) \<and>
   (ParseDefinition strtod n s = Done d s' \<or> ParseDefinition strtod n s = Exited s' \<longrightarrow>
      table_extends (BinopPrecedence s) (BinopPrecedence s')) \<and>
   (ParseExtern strtod n s = Done x s' \<or> ParseExtern strtod n s = Exited s' \<longrightarrow>
      table_extends (BinopPrecedence s) (BinopPrecedence s')) \<and>
   (ParseTopLevelExpr strtod n s = Done d s' \<or> ParseTopLevelExpr strtod n s = Exited s' \<longrightarrow>
      table_extends (BinopPrecedence s) (BinopPrecedence s')) \<and>
   (MainLoop strtod Folder n s = Done u s' \<or> MainLoop strtod Folder n s = Exited s' \<longrightarrow>
      table_extends (BinopPrecedence s) (BinopPrecedence s')) \<and>
   (main strtod Folder n input = Done v s' \<or> main strtod Folder n input = Exited s' \<longrightarrow>
      table_extends
        [CHR ''<'' \<mapsto> 10, CHR ''+'' \<mapsto> 20, CHR ''-'' \<mapsto> 20, CHR ''*'' \<mapsto> 40, CHR ''/'' \<mapsto> 40]
        (BinopPrecedence s')) \<and>
   (table_extends (BinopPrecedence s) (BinopPrecedence s') \<and> CurTok s' = CurTok s \<longrightarrow>
      fst (getTokPrecedence s') = fst (getTokPrecedence s)) \<and>
   (4 * length input + 9 \<le> n \<longrightarrow> main strtod Folder n input \<noteq> OutOfFuel) \<and>
   (getTokPrecedence s = (p, s') \<and> isascii (CurTok s) \<and>
    BinopPrecedence s (char_of (CurTok s)) = None \<longrightarrow>
      s' = s\<lparr>BinopPrecedence := (BinopPrecedence s)(char_of (CurTok s) \<mapsto> 0)\<rparr> \<and> p = - 1) \<and>
   (getTokPrecedence s = (p, s') \<and>
    (\<not> isascii (CurTok s) \<or> BinopPrecedence s (char_of (CurTok s)) \<noteq> None) \<longrightarrow>
      s' = s) \<and>
   (ParseExpression strtod n s = Done (Some a) s' \<and> isascii (CurTok s') \<longrightarrow>
      BinopPrecedence s' (char_of (CurTok s')) \<noteq> None)"
proof -
  note inv = table_invariant
  let ?I = "\<lambda>s' :: 'a state. table_extends (BinopPrecedence s) (BinopPrecedence s')"
  have s: "?I s" by simp
  have expr: "post (\<lambda>_. ?I) ?I (ParseExpression strtod n s)"
    by (rule ParseExpression_invariant [where I = ?I and E = ?I];
        (rule inv s; assumption))
  have defn: "post (\<lambda>_. ?I) ?I (ParseDefinition strtod n s)"
    by (rule post_mono [OF definition_invariant [where I = ?I and E = ?I]];
        (rule inv s; assumption)?) auto
  have extn: "post (\<lambda>_. ?I) ?I (ParseExtern strtod n s)"
    by (rule post_mono [OF extern_invariant [where I = ?I and E = ?I]];
        (rule inv s; assumption)?) auto
  have topl: "post (\<lambda>_. ?I) ?I (ParseTopLevelExpr strtod n s)"
    by (rule post_mono [OF toplevel_invariant [where I = ?I and E = ?I]];
        (rule inv s; assumption)?) auto
  have loop: "post (\<lambda>_. ?I) ?I (MainLoop strtod Folder n s)"
    by (rule MainLoop_invariant [where I = ?I and E = ?I];
        (rule inv s; assumption))
  let ?T0 = "[CHR ''<'' \<mapsto> 10, CHR ''+'' \<mapsto> 20, CHR ''-'' \<mapsto> 20, CHR ''*'' \<mapsto> 40, CHR ''/'' \<mapsto> (40::int)]"
  let ?I0 = "\<lambda>s' :: 'a state. table_extends ?T0 (BinopPrecedence s')"
  have st: "?I0 (install_operators (initial_state strtod input))"
    by (simp add: install_operators_def initial_state_def)
  have prog: "post (\<lambda>_. ?I0) ?I0 (main strtod Folder n input)"
    by (rule main_invariant(2) [where I = ?I0 and E = ?I0];
        (rule inv st; assumption))
  show ?thesis
  proof (intro conjI impI)
    assume "getTokPrecedence s = (p, s')"
    with getTokPrecedence_table [of s]
    show "table_extends (BinopPrecedence s) (BinopPrecedence s')" by simp
  next
    assume "ParseExpression strtod n s = Done e s' \<or> ParseExpression strtod n s = Exited s'"
    with postD [OF expr] show "table_extends (BinopPrecedence s) (BinopPrecedence s')"
      by blast
  next
    assume "ParseDefinition strtod n s = Done d s' \<or> ParseDefinition strtod n s = Exited s'"
    with postD [OF defn] show "table_extends (BinopPrecedence s) (BinopPrecedence s')"
      by blast
  next
    assume "ParseExtern strtod n s = Done x s' \<or> ParseExtern strtod n s = Exited s'"
    with postD [OF extn] show "table_extends (BinopPrecedence s) (BinopPrecedence s')"
      by blast
  next
    assume "ParseTopLevelExpr strtod n s = Done d s' \<or> ParseTopLevelExpr strtod n s = Exited s'"
    with postD [OF topl] show "table_extends (BinopPrecedence s) (BinopPrecedence s')"
      by blast
  next
    assume "MainLoop strtod Folder n s = Done u s' \<or> MainLoop strtod Folder n s = Exited s'"
    with postD [OF loop] show "table_extends (BinopPrecedence s) (BinopPrecedence s')"
      by blast
  next
    assume "main strtod Folder n input = Done v s' \<or> main strtod Folder n input = Exited s'"
    with postD [OF prog] show "table_extends ?T0 (BinopPrecedence s')"
      by blast
  next
    assume "table_extends (BinopPrecedence s) (BinopPrecedence s') \<and> CurTok s' = CurTok s"
    then show "fst (getTokPrecedence s') = fst (getTokPrecedence s)"
      by (simp add: getTokPrecedence_answer)
  next
    assume "4 * length input + 9 \<le> n"
    then show "main strtod Folder n input \<noteq> OutOfFuel" by (rule main_budget)
  next
    assume a: "getTokPrecedence s = (p, s') \<and> isascii (CurTok s) \<and>
      BinopPrecedence s (char_of (CurTok s)) = None"
    from getTokPrecedence_exact(1) [OF conjunct1 [OF a] conjunct2 [OF a]]
    show "s' = s\<lparr>BinopPrecedence := (BinopPrecedence s)(char_of (CurTok s) \<mapsto> 0)\<rparr>"
      and "p = - 1"
      by simp_all
  next
    assume a: "getTokPrecedence s = (p, s') \<and>
      (\<not> isascii (CurTok s) \<or> BinopPrecedence s (char_of (CurTok s)) \<noteq> None)"
    from getTokPrecedence_exact(2) [OF conjunct1 [OF a] conjunct2 [OF a]]
    show "s' = s" .
  next
    assume a: "ParseExpression strtod n s = Done (Some a) s' \<and> isascii (CurTok s')"
    with postD(1) [OF ParseExpression_looked_up, of strtod n s "Some a" s']
    show "BinopPrecedence s' (char_of (CurTok s')) \<noteq> None"
      by (simp add: looked_up_def)
  qed
qed

text \<open>
  Each hypothesis of the theorem holds on a run: the lookup at the token \<open>;\<close>, the four
  parsers and the main loop on short inputs, and the whole program on \<open>1;\<close>, for whose
  two characters a budget of 17 is enough. The lookup at \<open>;\<close> adds the entry \<open>;\<close>:0 and
  answers -1, the lookup at \<open>+\<close> changes nothing, and after the expression \<open>1\<close> of the
  input \<open>1;\<close> the token \<open>;\<close> has an entry.
\<close>

theorem precedence_table_kept_witness:
  "(\<exists>s p s'. startup (\<lambda>t. t) '';'' = Done () s \<and> getTokPrecedence s = (p, s') \<and>
      table_extends (BinopPrecedence s) (BinopPrecedence s') \<and> CurTok s' = CurTok s \<and>
      fst (getTokPrecedence s') = fst (getTokPrecedence s)) \<and>
   (\<exists>s e s'. startup (\<lambda>t. t) ''1;'' = Done () s \<and> ParseExpression (\<lambda>t. t) 8 s = Done e s' \<and>
      table_extends (BinopPrecedence s) (BinopPrecedence s')) \<and>
   (\<exists>s d s'. startup (\<lambda>t. t) ''def f(x) x;'' = Done () s \<and>
      ParseDefinition (\<lambda>t. t) 8 s = Done d s' \<and>
      table_extends (BinopPrecedence s) (BinopPrecedence s')) \<and>
   (\<exists>s x s'. startup (\<lambda>t. t) ''extern g(x);'' = Done () s \<and>
      ParseExtern (\<lambda>t. t) 8 s = Done x s' \<and>
      table_extends (BinopPrecedence s) (BinopPrecedence s')) \<and>
   (\<exists>s d s'. startup (\<lambda>t. t) ''1;'' = Done () s \<and>
      ParseTopLevelExpr (\<lambda>t. t) 8 s = Done d s' \<and>
      table_extends (BinopPrecedence s) (BinopPrecedence s')) \<and>
   (\<exists>s u s'. startup (\<lambda>t. t) ''1;'' = Done () s \<and>
      MainLoop (\<lambda>t. t) (\<lambda>_. None) 12 s = Done u s' \<and>
      table_extends (BinopPrecedence s) (BinopPrecedence s')) \<and>
   (\<exists>v s'. main (\<lambda>t. t) (\<lambda>_. None) 12 ''1;'' = Done v s' \<and>
      table_extends
        [CHR ''<'' \<mapsto> 10, CHR ''+'' \<mapsto> 20, CHR ''-'' \<mapsto> 20, CHR ''*'' \<mapsto> 40, CHR ''/'' \<mapsto> 40]
        (BinopPrecedence s')) \<and>
   4 * length ''1;'' + 9 \<le> (17 :: nat) \<and>
   main (\<lambda>t. t) (\<lambda>_. None) 17 ''1;'' \<noteq> OutOfFuel \<and>
   (\<exists>s p s'. startup (\<lambda>t. t) '';'' = Done () s \<and> getTokPrecedence s = (p, s') \<and>
      CurTok s = of_char CHR '';'' \<and> isascii (CurTok s) \<and> BinopPrecedence s CHR '';'' = None \<and>
      s' = s\<lparr>BinopPrecedence := (BinopPrecedence s)(CHR '';'' \<mapsto> 0)\<rparr> \<and> p = - 1) \<and>
   (\<exists>s p s'. startup (\<lambda>t. t) ''+'' = Done () s \<and> getTokPrecedence s = (p, s') \<and>
      CurTok s = of_char CHR ''+'' \<and> BinopPrecedence s CHR ''+'' = Some 20 \<and> s' = s) \<and>
   (\<exists>s a s'. startup (\<lambda>t. t) ''1;'' = Done () s \<and>
      ParseExpression (\<lambda>t. t) 8 s = Done (Some a) s' \<and> CurTok s' = of_char CHR '';'' \<and>
      BinopPrecedence s' CHR '';'' \<noteq> None)"
proof -
  note evals = lexer_eval parser_eval driver_eval codegen_eval eval_nat_numeral
  let ?sd = "\<lambda>t :: string. t"
  let ?F = "\<lambda>_ :: string Value. None :: string Value option"
  have 1: "\<exists>s p s'. startup ?sd '';'' = Done () s \<and> getTokPrecedence s = (p, s') \<and> CurTok s' = CurTok s"
    by (simp add: evals)
  have 2: "\<exists>s e s'. startup ?sd ''1;'' = Done () s \<and> ParseExpression ?sd 8 s = Done e s'"
    by (simp add: evals)
  have 3: "\<exists>s d s'. startup ?sd ''def f(x) x;'' = Done () s \<and> ParseDefinition ?sd 8 s = Done d s'"
    by (simp add: evals)
  have 4: "\<exists>s x s'. startup ?sd ''extern g(x);'' = Done () s \<and> ParseExtern ?sd 8 s = Done x s'"
    by (simp add: evals)
  have 5: "\<exists>s d s'. startup ?sd ''1;'' = Done () s \<and> ParseTopLevelExpr ?sd 8 s = Done d s'"
    by (simp add: evals)
  have 6: "\<exists>s u s'. startup ?sd ''1;'' = Done () s \<and> MainLoop ?sd ?F 12 s = Done u s'"
    by (simp add: evals)
  have 7: "\<exists>v s'. main ?sd ?F 12 ''1;'' = Done v s'"
    by (simp add: evals)
  note T = precedence_table_kept [where strtod = ?sd and Folder = ?F]
  show ?thesis
  proof (intro conjI)
    from 1 obtain s p s' where h: "startup ?sd '';'' = Done () s" "getTokPrecedence s = (p, s')"
      "CurTok s' = CurTok s" by blast
    from T [where s = s and s' = s' and p = p] h
    show "\<exists>s p s'. startup ?sd '';'' = Done () s \<and> getTokPrecedence s = (p, s') \<and>
      table_extends (BinopPrecedence s) (BinopPrecedence s') \<and> CurTok s' = CurTok s \<and>
      fst (getTokPrecedence s') = fst (getTokPrecedence s)"
      by blast
  next
    from 2 obtain s e s' where h: "startup ?sd ''1;'' = Done () s" "ParseExpression ?sd 8 s = Done e s'"
      by blast
    from T [where s = s and s' = s' and e = e and n = 8] h
    show "\<exists>s e s'. startup ?sd ''1;'' = Done () s \<and> ParseExpression ?sd 8 s = Done e s' \<and>
      table_extends (BinopPrecedence s) (BinopPrecedence s')"
      by blast
  next
    from 3 obtain s d s' where h: "startup ?sd ''def f(x) x;'' = Done () s"
      "ParseDefinition ?sd 8 s = Done d s'" by blast
    from T [where s = s and s' = s' and d = d and n = 8] h
    show "\<exists>s d s'. startup ?sd ''def f(x) x;'' = Done () s \<and> ParseDefinition ?sd 8 s = Done d s' \<and>
      table_extends (BinopPrecedence s) (BinopPrecedence s')"
      by blast
  next
    from 4 obtain s x s' where h: "startup ?sd ''extern g(x);'' = Done () s"
      "ParseExtern ?sd 8 s = Done x s'" by blast
    from T [where s = s and s' = s' and x = x and n = 8] h
    show "\<exists>s x s'. startup ?sd ''extern g(x);'' = Done () s \<and> ParseExtern ?sd 8 s = Done x s' \<and>
      table_extends (BinopPrecedence s) (BinopPrecedence s')"
      by blast
  next
    from 5 obtain s d s' where h: "startup ?sd ''1;'' = Done () s"
      "ParseTopLevelExpr ?sd 8 s = Done d s'" by blast
    from T [where s = s and s' = s' and d = d and n = 8] h
    show "\<exists>s d s'. startup ?sd ''1;'' = Done () s \<and> ParseTopLevelExpr ?sd 8 s = Done d s' \<and>
      table_extends (BinopPrecedence s) (BinopPrecedence s')"
      by blast
  next
    from 6 obtain s u s' where h: "startup ?sd ''1;'' = Done () s"
      "MainLoop ?sd ?F 12 s = Done u s'" by blast
    from T [where s = s and s' = s' and u = u and n = 12] h
    show "\<exists>s u s'. startup ?sd ''1;'' = Done () s \<and> MainLoop ?sd ?F 12 s = Done u s' \<and>
      table_extends (BinopPrecedence s) (BinopPrecedence s')"
      by blast
  next
    from 7 obtain v s' where h: "main ?sd ?F 12 ''1;'' = Done v s'" by blast
    from T [where s' = s' and v = v and n = 12 and input = "''1;''"] h
    show "\<exists>v s'. main ?sd ?F 12 ''1;'' = Done v s' \<and>
      table_extends
        [CHR ''<'' \<mapsto> 10, CHR ''+'' \<mapsto> 20, CHR ''-'' \<mapsto> 20, CHR ''*'' \<mapsto> 40, CHR ''/'' \<mapsto> 40]
        (BinopPrecedence s')"
      by blast
  next
    show b: "4 * length ''1;'' + 9 \<le> (17 :: nat)" by simp
    from T [where n = 17 and input = "''1;''"] b
    show "main ?sd ?F 17 ''1;'' \<noteq> OutOfFuel" by blast
  next
    have "\<exists>s p s'. startup ?sd '';'' = Done () s \<and> getTokPrecedence s = (p, s') \<and>
        CurTok s = of_char CHR '';'' \<and> isascii (CurTok s) \<and> BinopPrecedence s CHR '';'' = None"
      by (simp add: evals)
    then obtain s p s' where h: "startup ?sd '';'' = Done () s" "getTokPrecedence s = (p, s')"
        "CurTok s = of_char CHR '';''" "isascii (CurTok s)" "BinopPrecedence s CHR '';'' = None"
      by blast
    from h(3,5) have n: "BinopPrecedence s (char_of (CurTok s)) = None"
      by (simp add: char_of_def)
    from T [where s = s and s' = s' and p = p, THEN conjunct2, THEN conjunct2, THEN conjunct2,
        THEN conjunct2, THEN conjunct2, THEN conjunct2, THEN conjunct2, THEN conjunct2,
        THEN conjunct2, THEN conjunct1, THEN mp, OF conjI [OF h(2) conjI [OF h(4) n]]]
    have "s' = s\<lparr>BinopPrecedence := (BinopPrecedence s)(CHR '';'' \<mapsto> 0)\<rparr> \<and> p = - 1"
      by (simp add: h(3) char_of_def)
    with h show "\<exists>s p s'. startup ?sd '';'' = Done () s \<and> getTokPrecedence s = (p, s') \<and>
      CurTok s = of_char CHR '';'' \<and> isascii (CurTok s) \<and> BinopPrecedence s CHR '';'' = None \<and>
      s' = s\<lparr>BinopPrecedence := (BinopPrecedence s)(CHR '';'' \<mapsto> 0)\<rparr> \<and> p = - 1"
      by blast
  next
    have "\<exists>s p s'. startup ?sd ''+'' = Done () s \<and> getTokPrecedence s = (p, s') \<and>
        CurTok s = of_char CHR ''+'' \<and> BinopPrecedence s CHR ''+'' = Some 20"
      by (simp add: evals)
    then obtain s p s' where h: "startup ?sd ''+'' = Done () s" "getTokPrecedence s = (p, s')"
        "CurTok s = of_char CHR ''+''" "BinopPrecedence s CHR ''+'' = Some 20"
      by blast
    from h(3,4) have n: "\<not> isascii (CurTok s) \<or> BinopPrecedence s (char_of (CurTok s)) \<noteq> None"
      by (simp add: char_of_def)
    from T [where s = s and s' = s' and p = p, THEN conjunct2, THEN conjunct2, THEN conjunct2,
        THEN conjunct2, THEN conjunct2, THEN conjunct2, THEN conjunct2, THEN conjunct2,
        THEN conjunct2, THEN conjunct2, THEN conjunct1, THEN mp, OF conjI [OF h(2) n]]
    have "s' = s" .
    with h show "\<exists>s p s'. startup ?sd ''+'' = Done () s \<and> getTokPrecedence s = (p, s') \<and>
      CurTok s = of_char CHR ''+'' \<and> BinopPrecedence s CHR ''+'' = Some 20 \<and> s' = s"
      by blast
  next
    have "\<exists>s a s'. startup ?sd ''1;'' = Done () s \<and>
        ParseExpression ?sd 8 s = Done (Some a) s' \<and> CurTok s' = of_char CHR '';''"
      by (simp add: evals)
    then obtain s a s' where h: "startup ?sd ''1;'' = Done () s"
        "ParseExpression ?sd 8 s = Done (Some a) s'" "CurTok s' = of_char CHR '';''"
      by blast
    from h(3) have i: "isascii (CurTok s')" by (simp add: isascii_def)
    from T [where s = s and s' = s' and a = a and n = 8, THEN conjunct2, THEN conjunct2,
        THEN conjunct2, THEN conjunct2, THEN conjunct2, THEN conjunct2, THEN conjunct2,
        THEN conjunct2, THEN conjunct2, THEN conjunct2, THEN conjunct2, THEN mp,
        OF conjI [OF h(2) i]]
    have "BinopPrecedence s' CHR '';'' \<noteq> None" by (simp add: h(3) char_of_def)
    with h show "\<exists>s a s'. startup ?sd ''1;'' = Done () s \<and>
      ParseExpression ?sd 8 s = Done (Some a) s' \<and> CurTok s' = of_char CHR '';'' \<and>
      BinopPrecedence s' CHR '';'' \<noteq> None"
      by blast
  qed
qed

text \<open>
  C3 as stated fails: on the input \<open>1;\<close> the table has no entry for \<open>;\<close> when parsing
  starts, and the entry \<open>;\<close>:0 after \<open>ParseExpression\<close> has returned.
\<close>

theorem precedence_table_counterexample:
  "(case startup (\<lambda>t. t) ''1;'' of
      Done _ s \<Rightarrow> BinopPrecedence s CHR '';''
    | _ \<Rightarrow> Some 1) = None \<and>
   (case bind (startup (\<lambda>t. t) ''1;'') (\<lambda>_. ParseExpression (\<lambda>t. t) 8) of
      Done _ s' \<Rightarrow> BinopPrecedence s' CHR '';''
    | _ \<Rightarrow> None) = Some 0"
  by (simp add: lexer_eval parser_eval driver_eval eval_nat_numeral)

subsection \<open>The fatal error\<close>

text \<open>
  C8. When a numeric literal starts at the look-ahead (after white space), \<open>gettok\<close> exits
  the process exactly if the literal's text has two or more decimal points: the error is
  written with the converted value and no token is returned; with fewer it returns
  \<open>tok_number\<close> and writes nothing. Whenever \<open>gettok\<close> exits it has written this error,
  and whenever the main loop or the whole program exits, the last thing written is this
  error: no other error ends the process. A budget of four units for each character of
  the input and nine more is enough for the run to end, by this exit or by a return.
\<close>

theorem malformed_number_is_fatal:
  "(isdigit (LastChar (skip_whitespace s)) \<or> LastChar (skip_whitespace s) = of_char CHR ''.'' \<longrightarrow>
      (2 \<le> count_list (number_text (skip_whitespace s)) CHR ''.'' \<longrightarrow>
         (\<exists>s'. gettok strtod s = Exited s' \<and>
               out s' = out s @ [NumberSyntaxError (strtod (number_text (skip_whitespace s)))])) \<and>
      (count_list (number_text (skip_whitespace s)) CHR ''.'' < 2 \<longrightarrow>
         (\<exists>s'. gettok strtod s = Done tok_number s' \<and>
               NumVal s' = strtod (number_text (skip_whitespace s)) \<and> out s' = out s))) \<and>
   (gettok strtod s = Exited s' \<longrightarrow> out s' = out s @ [NumberSyntaxError (NumVal s')]) \<and>
   (MainLoop strtod Folder n s = Exited s' \<longrightarrow> fatal_reported s') \<and>
   (main strtod Folder n input = Exited s' \<longrightarrow> fatal_reported s') \<and>
   (4 * length input + 9 \<le> n \<longrightarrow> main strtod Folder n input \<noteq> OutOfFuel)"
proof -
  let ?I = "\<lambda>_ :: 'a state. True"
  have loop: "post (\<lambda>_. ?I) fatal_reported (MainLoop strtod Folder n s)"
    by (rule MainLoop_invariant [where I = ?I and E = fatal_reported];
        (rule fatal_invariant TrueI))
  have prog: "post (\<lambda>_. ?I) fatal_reported (main strtod Folder n input)"
    by (rule main_invariant(2) [where I = ?I and E = fatal_reported];
        (rule fatal_invariant TrueI))
  have out_ws: "out (snd (read_number [] False False (skip_whitespace s))) = out s"
    using lexer_step_read_number [of "skip_whitespace s" "[]" False False]
      lexer_step_skip_whitespace [of s]
    by (simp add: lexer_step_def)
  show ?thesis
  proof (intro conjI impI)
    assume st: "isdigit (LastChar (skip_whitespace s)) \<or> LastChar (skip_whitespace s) = of_char CHR ''.''"
    {
      assume "2 \<le> count_list (number_text (skip_whitespace s)) CHR ''.''"
      then show "\<exists>s'. gettok strtod s = Exited s' \<and>
               out s' = out s @ [NumberSyntaxError (strtod (number_text (skip_whitespace s)))]"
        by (simp add: gettok_number [OF st] Let_def out_ws)
    }
    {
      assume "count_list (number_text (skip_whitespace s)) CHR ''.'' < 2"
      then show "\<exists>s'. gettok strtod s = Done tok_number s' \<and>
               NumVal s' = strtod (number_text (skip_whitespace s)) \<and> out s' = out s"
        by (simp add: gettok_number [OF st] Let_def out_ws)
    }
  next
    assume "gettok strtod s = Exited s'"
    with postD(2) [OF gettok_post, of strtod s s']
    show "out s' = out s @ [NumberSyntaxError (NumVal s')]"
      by (simp add: fatal_exit_def)
  next
    assume "MainLoop strtod Folder n s = Exited s'"
    with postD(2) [OF loop] show "fatal_reported s'" by blast
  next
    assume "main strtod Folder n input = Exited s'"
    with postD(2) [OF prog] show "fatal_reported s'" by blast
  next
    assume "4 * length input + 9 \<le> n"
    then show "main strtod Folder n input \<noteq> OutOfFuel" by (rule main_budget)
  qed
qed

text \<open>
  The theorem at work: \<open>1.2.3\<close> is fatal in the lexer and for the whole program, \<open>1.25\<close> is
  a number, and the main loop exits on \<open>4 5.6.7\<close>; for the five characters of \<open>1.2.3\<close> a
  budget of 29 is enough.
\<close>

theorem malformed_number_is_fatal_witness:
  "(\<exists>s s'. s = install_operators (initial_state (\<lambda>t. t) ''1.2.3'') \<and>
      LastChar (skip_whitespace s) = of_char CHR ''1'' \<and>
      number_text (skip_whitespace s) = ''1.2.3'' \<and>
      gettok (\<lambda>t. t) s = Exited s' \<and> out s' = out s @ [NumberSyntaxError ''1.2.3'']) \<and>
   (\<exists>s s'. s = install_operators (initial_state (\<lambda>t. t) ''1.25 '') \<and>
      gettok (\<lambda>t. t) s = Done tok_number s' \<and> NumVal s' = ''1.25'') \<and>
   (\<exists>s'. main (\<lambda>t. t) (\<lambda>_. None) 12 ''1.2.3'' = Exited s' \<and> fatal_reported s' \<and>
      out s' = [Stdout ''ready> '', NumberSyntaxError ''1.2.3'']) \<and>
   (\<exists>s s'. startup (\<lambda>t. t) ''4 5.6.7'' = Done () s \<and>
      MainLoop (\<lambda>t. t) (\<lambda>_. None) 12 s = Exited s' \<and> fatal_reported s') \<and>
   4 * length ''1.2.3'' + 9 \<le> (29 :: nat) \<and>
   main (\<lambda>t. t) (\<lambda>_. None) 29 ''1.2.3'' \<noteq> OutOfFuel"
proof -
  note evals = lexer_eval parser_eval driver_eval codegen_eval eval_nat_numeral
  let ?sd = "\<lambda>t :: string. t"
  let ?F = "\<lambda>_ :: string Value. None :: string Value option"
  note T = malformed_number_is_fatal [where strtod = ?sd and Folder = ?F]
  let ?s1 = "install_operators (initial_state ?sd ''1.2.3'')"
  have a1: "LastChar (skip_whitespace ?s1) = of_char CHR ''1''"
    by (simp add: evals)
  have b1: "number_text (skip_whitespace ?s1) = ''1.2.3''"
    by (simp add: evals number_text_def)
  have c1: "isdigit (LastChar (skip_whitespace ?s1)) \<or> LastChar (skip_whitespace ?s1) = of_char CHR ''.''"
    by (simp add: a1 isdigit_def)
  have d1: "2 \<le> count_list (number_text (skip_whitespace ?s1)) CHR ''.''"
    by (simp add: b1)
  from T [where s = ?s1, THEN conjunct1, THEN mp, OF c1, THEN conjunct1, THEN mp, OF d1]
  have 1: "\<exists>s'. gettok ?sd ?s1 = Exited s' \<and> out s' = out ?s1 @ [NumberSyntaxError ''1.2.3'']"
    by (simp only: b1)
  let ?s2 = "install_operators (initial_state ?sd ''1.25 '')"
  have b2: "number_text (skip_whitespace ?s2) = ''1.25''"
    by (simp add: evals number_text_def)
  have c2: "isdigit (LastChar (skip_whitespace ?s2)) \<or> LastChar (skip_whitespace ?s2) = of_char CHR ''.''"
    by (simp add: evals)
  have d2: "count_list (number_text (skip_whitespace ?s2)) CHR ''.'' < 2"
    by (simp add: b2)
  from T [where s = ?s2, THEN conjunct1, THEN mp, OF c2, THEN conjunct2, THEN mp, OF d2]
  have 2: "\<exists>s'. gettok ?sd ?s2 = Done tok_number s' \<and> NumVal s' = ''1.25''"
    by (auto simp only: b2)
  have "\<exists>s'. main ?sd ?F 12 ''1.2.3'' = Exited s' \<and>
      out s' = [Stdout ''ready> '', NumberSyntaxError ''1.2.3'']"
    by (simp add: evals)
  then obtain s3 where m: "main ?sd ?F 12 ''1.2.3'' = Exited s3"
      "out s3 = [Stdout ''ready> '', NumberSyntaxError ''1.2.3'']" by blast
  from T [where s' = s3 and n = 12 and input = "''1.2.3''", THEN conjunct2, THEN conjunct2,
      THEN conjunct2, THEN conjunct1, THEN mp, OF m(1)]
  have 3: "fatal_reported s3" .
  have "\<exists>s s'. startup ?sd ''4 5.6.7'' = Done () s \<and> MainLoop ?sd ?F 12 s = Exited s'"
    by (simp add: evals)
  then obtain s4 s5 where l: "startup ?sd ''4 5.6.7'' = Done () s4" "MainLoop ?sd ?F 12 s4 = Exited s5"
    by blast
  from T [where s = s4 and s' = s5 and n = 12, THEN conjunct2, THEN conjunct2,
      THEN conjunct1, THEN mp, OF l(2)]
  have 4: "fatal_reported s5" .
  have 5: "4 * length ''1.2.3'' + 9 \<le> (29 :: nat)" by simp
  from T [where n = 29 and input = "''1.2.3''", THEN conjunct2, THEN conjunct2,
      THEN conjunct2, THEN conjunct2, THEN mp, OF 5]
  have 6: "main ?sd ?F 29 ''1.2.3'' \<noteq> OutOfFuel" .
  from 1 a1 b1 2 m 3 l 4 5 6 show ?thesis
    by (intro conjI) blast+
qed

subsection \<open>Error recovery at the top level\<close>

text \<open>
  C9 (as amended). When the parse of a definition, an extern or a top-level expression
  fails, its handler lowers nothing and reads exactly one more token, and the main loop
  goes on dispatching from there. The failed parse has written exactly one error and has
  left the module, the builder and the symbol table as they were (the precedence table
  has gained at most entries with the value 0). The run then goes on as the run from
  the state before the failed parse with the input advanced to where the failed parse
  left it (the look-ahead being the end of the input or a character): one token is
  read and dispatch resumes, with the same answers, module and symbol table, and the
  same lines written after the one error. So when the program's first construct fails
  at a token that white space follows, as at the last token of an invalid line, the
  program writes the prompt and one error and then goes on as the program run on the
  rest of the input goes on after its prompt, and within the budget both return: a
  valid line that follows is lowered as it is when it comes first. A token that can
  start no expression fails in this way and consumes nothing. On \<open>)\<close>, newline,
  \<open>def f(x) x\<close> the program writes one error and then the definition of \<open>f\<close>; on
  \<open>def f(x ,\<close>, newline, \<open>4\<close> it writes one error and then the function of \<open>4\<close>.
\<close>

theorem parse_failure_skips_one_token:
  "(ParseDefinition strtod n s = Done None s1 \<longrightarrow>
      HandleDefinition strtod Folder n s = bind (getNextToken strtod s1) (\<lambda>_ s2. Done () s2)) \<and>
   (ParseExtern strtod n s = Done None s1 \<longrightarrow>
      HandleExtern strtod n s = bind (getNextToken strtod s1) (\<lambda>_ s2. Done () s2)) \<and>
   (ParseTopLevelExpr strtod n s = Done None s1 \<longrightarrow>
      HandleTopLevelExpression strtod Folder n s =
        bind (getNextToken strtod s1) (\<lambda>_ s2. Done () s2)) \<and>
   (parse_fails strtod n s s1 \<longrightarrow>
      MainLoop strtod Folder (Suc n) s =
        bind (getNextToken strtod s1) (\<lambda>_ s2. MainLoop strtod Folder n s2) \<and>
      (\<exists>m. out s1 = out s @ [Stdout (''Error: '' @ m)]) \<and>
      TheModule s1 = TheModule s \<and> Builder s1 = Builder s \<and> NamedValues s1 = NamedValues s \<and>
      table_extends (BinopPrecedence s) (BinopPrecedence s1)) \<and>
   (parse_fails strtod n s s1 \<and> EOF \<le> LastChar s1 \<longrightarrow>
      resumed_result (out s) (out s1)
        (bind (getNextToken strtod (s\<lparr>stdin := stdin s1, LastChar := LastChar s1\<rparr>))
           (\<lambda>_ s2. MainLoop strtod Folder n s2))
        (MainLoop strtod Folder (Suc n) s)) \<and>
   (startup strtod input = Done () s \<and> parse_fails strtod n s s1 \<and> isspace (LastChar s1) \<longrightarrow>
      (\<exists>m. out s1 = [Stdout ''ready> '', Stdout (''Error: '' @ m)]) \<and>
      resumed_result [Stdout ''ready> ''] (out s1)
        (main strtod Folder n (stdin s1)) (main strtod Folder (Suc n) input) \<and>
      (4 * length input + 8 \<le> n \<longrightarrow>
         main strtod Folder (Suc n) input \<noteq> OutOfFuel \<and>
         main strtod Folder n (stdin s1) \<noteq> OutOfFuel)) \<and>
   (CurTok s \<noteq> tok_identifier \<and> CurTok s \<noteq> tok_number \<and> CurTok s \<noteq> of_char CHR ''('' \<longrightarrow>
      ParseTopLevelExpr strtod (Suc (Suc n)) s =
        Done None (LogError ''Unknown token when expecting an expression'' s)) \<and>
   (\<exists>s'. main strtod Folder (12 + k) ('')'' @ [CHR 0x0A] @ ''def f(x) x'') = Done 0 s' \<and>
      out s' =
        [Stdout ''ready> '',
         Stdout ''Error: Unknown token when expecting an expression'',
         Stdout ''Parsed a function definition:'',
         PrintFunction \<lparr>fn_name = ''f_def'', fn_args = [''x''], fn_blocks = [[Ret (Argument 0 0)]]\<rparr>,
         Stdout [],
         PrintModule
           \<lparr>Functions = [(0, \<lparr>fn_name = ''f_def'', fn_args = [''x''],
                               fn_blocks = [[Ret (Argument 0 0)]]\<rparr>)],
            NextAddr = 1\<rparr>]) \<and>
   (\<exists>s'. main strtod Folder (12 + k) (''def f(x ,'' @ [CHR 0x0A] @ ''4'') = Done 0 s' \<and>
      out s' =
        [Stdout ''ready> '',
         Stdout (''Error: Expected ')' in prototype''),
         Stdout ''Parsed a top-level expression:'',
         PrintFunction \<lparr>fn_name = [], fn_args = [], fn_blocks = [[Ret (ConstantFP (strtod ''4''))]]\<rparr>,
         Stdout [],
         PrintModule \<lparr>Functions = [], NextAddr = 1\<rparr>])"
proof -
  have handlers:
    "ParseDefinition strtod n s = Done None s1 \<longrightarrow>
      HandleDefinition strtod Folder n s = bind (getNextToken strtod s1) (\<lambda>_ s2. Done () s2)"
    "ParseExtern strtod n s = Done None s1 \<longrightarrow>
      HandleExtern strtod n s = bind (getNextToken strtod s1) (\<lambda>_ s2. Done () s2)"
    "ParseTopLevelExpr strtod n s = Done None s1 \<longrightarrow>
      HandleTopLevelExpression strtod Folder n s =
        bind (getNextToken strtod s1) (\<lambda>_ s2. Done () s2)"
    by (simp_all add: HandleDefinition_def HandleExtern_def HandleTopLevelExpression_def)
  have abandoned: "parse_fails strtod n s s1 \<longrightarrow>
      MainLoop strtod Folder (Suc n) s =
        bind (getNextToken strtod s1) (\<lambda>_ s2. MainLoop strtod Folder n s2) \<and>
      (\<exists>m. out s1 = out s @ [Stdout (''Error: '' @ m)]) \<and>
      TheModule s1 = TheModule s \<and> Builder s1 = Builder s \<and> NamedValues s1 = NamedValues s \<and>
      table_extends (BinopPrecedence s) (BinopPrecedence s1)"
    using parse_fails_effect [of strtod n s s1] parse_fails_loop [of strtod n s s1 Folder]
    by (simp add: parse_effect_def)
  have resumes: "parse_fails strtod n s s1 \<and> EOF \<le> LastChar s1 \<longrightarrow>
      resumed_result (out s) (out s1)
        (bind (getNextToken strtod (s\<lparr>stdin := stdin s1, LastChar := LastChar s1\<rparr>))
           (\<lambda>_ s2. MainLoop strtod Folder n s2))
        (MainLoop strtod Folder (Suc n) s)"
    using resumed_after_failure [of strtod n s s1 Folder] by blast
  have program: "startup strtod input = Done () s \<and> parse_fails strtod n s s1 \<and> isspace (LastChar s1) \<longrightarrow>
      (\<exists>m. out s1 = [Stdout ''ready> '', Stdout (''Error: '' @ m)]) \<and>
      resumed_result [Stdout ''ready> ''] (out s1)
        (main strtod Folder n (stdin s1)) (main strtod Folder (Suc n) input) \<and>
      (4 * length input + 8 \<le> n \<longrightarrow>
         main strtod Folder (Suc n) input \<noteq> OutOfFuel \<and>
         main strtod Folder n (stdin s1) \<noteq> OutOfFuel)"
  proof (intro impI, elim conjE)
    assume a: "startup strtod input = Done () s" "parse_fails strtod n s s1" "isspace (LastChar s1)"
    note r = resumed_program(1) [OF a] resumed_program(2) [OF a, where Folder = Folder]
    have "main strtod Folder (Suc n) input \<noteq> OutOfFuel \<and>
        main strtod Folder n (stdin s1) \<noteq> OutOfFuel" if "4 * length input + 8 \<le> n"
    proof -
      from that have "4 * length input + 9 \<le> Suc n" by simp
      then have "main strtod Folder (Suc n) input \<noteq> OutOfFuel" by (rule main_budget)
      with r(2) show ?thesis by (auto simp: resumed_result_def)
    qed
    with r show "(\<exists>m. out s1 = [Stdout ''ready> '', Stdout (''Error: '' @ m)]) \<and>
      resumed_result [Stdout ''ready> ''] (out s1)
        (main strtod Folder n (stdin s1)) (main strtod Folder (Suc n) input) \<and>
      (4 * length input + 8 \<le> n \<longrightarrow>
         main strtod Folder (Suc n) input \<noteq> OutOfFuel \<and>
         main strtod Folder n (stdin s1) \<noteq> OutOfFuel)"
      by blast
  qed
  have stray: "CurTok s \<noteq> tok_identifier \<and> CurTok s \<noteq> tok_number \<and> CurTok s \<noteq> of_char CHR ''('' \<longrightarrow>
      ParseTopLevelExpr strtod (Suc (Suc n)) s =
        Done None (LogError ''Unknown token when expecting an expression'' s)"
    by (simp add: ParseTopLevelExpr_def)
  note evals = lexer_eval parser_eval driver_eval codegen_eval eval_nat_numeral
  have run1: "\<exists>s'. main strtod Folder (12 + k) ('')'' @ [CHR 0x0A] @ ''def f(x) x'') = Done 0 s' \<and>
      out s' =
        [Stdout ''ready> '',
         Stdout ''Error: Unknown token when expecting an expression'',
         Stdout ''Parsed a function definition:'',
         PrintFunction \<lparr>fn_name = ''f_def'', fn_args = [''x''], fn_blocks = [[Ret (Argument 0 0)]]\<rparr>,
         Stdout [],
         PrintModule
           \<lparr>Functions = [(0, \<lparr>fn_name = ''f_def'', fn_args = [''x''],
                               fn_blocks = [[Ret (Argument 0 0)]]\<rparr>)],
            NextAddr = 1\<rparr>]"
    by (simp add: evals)
  have run2: "\<exists>s'. main strtod Folder (12 + k) (''def f(x ,'' @ [CHR 0x0A] @ ''4'') = Done 0 s' \<and>
      out s' =
        [Stdout ''ready> '',
         Stdout (''Error: Expected ')' in prototype''),
         Stdout ''Parsed a top-level expression:'',
         PrintFunction \<lparr>fn_name = [], fn_args = [], fn_blocks = [[Ret (ConstantFP (strtod ''4''))]]\<rparr>,
         Stdout [],
         PrintModule \<lparr>Functions = [], NextAddr = 1\<rparr>]"
    by (simp add: evals)
  from handlers abandoned resumes program stray run1 run2 show ?thesis
    by (intro conjI)
qed

text \<open>
  The hypotheses hold on runs: the definition \<open>def 1 2\<close>, the extern \<open>extern 1 2\<close> and the
  expression \<open>) 1\<close> each fail to parse, the last at a token that can start no
  expression; the definition \<open>def f(x ,\<close> fails at its last token, before the line \<open>4\<close>,
  and a budget of 53 steps is enough for that input.
\<close>

theorem parse_failure_skips_one_token_witness:
  "(\<exists>s s1. startup (\<lambda>t. t) ''def 1 2'' = Done () s \<and> CurTok s = tok_def \<and>
      ParseDefinition (\<lambda>t. t) 8 s = Done None s1 \<and> parse_fails (\<lambda>t. t) 8 s s1 \<and>
      HandleDefinition (\<lambda>t. t) (\<lambda>_. None) 8 s = bind (getNextToken (\<lambda>t. t) s1) (\<lambda>_ s2. Done () s2) \<and>
      MainLoop (\<lambda>t. t) (\<lambda>_. None) (Suc 8) s =
        bind (getNextToken (\<lambda>t. t) s1) (\<lambda>_ s2. MainLoop (\<lambda>t. t) (\<lambda>_. None) 8 s2) \<and>
      (\<exists>m. out s1 = out s @ [Stdout (''Error: '' @ m)]) \<and> TheModule s1 = TheModule s) \<and>
   (\<exists>s s1. startup (\<lambda>t. t) ''extern 1 2'' = Done () s \<and> CurTok s = tok_extern \<and>
      ParseExtern (\<lambda>t. t) 8 s = Done None s1 \<and> parse_fails (\<lambda>t. t) 8 s s1 \<and>
      HandleExtern (\<lambda>t. t) 8 s = bind (getNextToken (\<lambda>t. t) s1) (\<lambda>_ s2. Done () s2) \<and>
      MainLoop (\<lambda>t. t) (\<lambda>_. None) (Suc 8) s =
        bind (getNextToken (\<lambda>t. t) s1) (\<lambda>_ s2. MainLoop (\<lambda>t. t) (\<lambda>_. None) 8 s2) \<and>
      (\<exists>m. out s1 = out s @ [Stdout (''Error: '' @ m)]) \<and> TheModule s1 = TheModule s) \<and>
   (\<exists>s s1. startup (\<lambda>t. t) '') 1'' = Done () s \<and> CurTok s = of_char CHR '')'' \<and>
      ParseTopLevelExpr (\<lambda>t. t) 8 s = Done None s1 \<and> parse_fails (\<lambda>t. t) 8 s s1 \<and>
      s1 = LogError ''Unknown token when expecting an expression'' s \<and>
      HandleTopLevelExpression (\<lambda>t. t) (\<lambda>_. None) 8 s =
        bind (getNextToken (\<lambda>t. t) s1) (\<lambda>_ s2. Done () s2) \<and>
      MainLoop (\<lambda>t. t) (\<lambda>_. None) (Suc 8) s =
        bind (getNextToken (\<lambda>t. t) s1) (\<lambda>_ s2. MainLoop (\<lambda>t. t) (\<lambda>_. None) 8 s2) \<and>
      (\<exists>m. out s1 = out s @ [Stdout (''Error: '' @ m)]) \<and> TheModule s1 = TheModule s) \<and>
   (\<exists>s s1. startup (\<lambda>t. t) (''def f(x ,'' @ [CHR 0x0A] @ ''4'') = Done () s \<and>
      parse_fails (\<lambda>t. t) 52 s s1 \<and> isspace (LastChar s1) \<and> EOF \<le> LastChar s1 \<and>
      stdin s1 = ''4'' \<and>
      4 * length (''def f(x ,'' @ [CHR 0x0A] @ ''4'') + 8 \<le> (52 :: nat) \<and>
      out s1 = [Stdout ''ready> '', Stdout (''Error: Expected ')' in prototype'')] \<and>
      resumed_result (out s) (out s1)
        (bind (getNextToken (\<lambda>t. t) (s\<lparr>stdin := stdin s1, LastChar := LastChar s1\<rparr>))
           (\<lambda>_ s2. MainLoop (\<lambda>t. t) (\<lambda>_. None) 52 s2))
        (MainLoop (\<lambda>t. t) (\<lambda>_. None) (Suc 52) s) \<and>
      resumed_result [Stdout ''ready> ''] (out s1)
        (main (\<lambda>t. t) (\<lambda>_. None) 52 ''4'')
        (main (\<lambda>t. t) (\<lambda>_. None) (Suc 52) (''def f(x ,'' @ [CHR 0x0A] @ ''4'')) \<and>
      main (\<lambda>t. t) (\<lambda>_. None) (Suc 52) (''def f(x ,'' @ [CHR 0x0A] @ ''4'') \<noteq> OutOfFuel \<and>
      main (\<lambda>t. t) (\<lambda>_. None) 52 ''4'' \<noteq> OutOfFuel)"
proof -
  note evals = lexer_eval parser_eval driver_eval codegen_eval eval_nat_numeral
  let ?sd = "\<lambda>t :: string. t"
  let ?F = "\<lambda>_ :: string Value. None :: string Value option"
  note T = parse_failure_skips_one_token [where strtod = ?sd and Folder = ?F and n = 8]
  have "\<exists>s s1. startup ?sd ''def 1 2'' = Done () s \<and> CurTok s = tok_def \<and>
      ParseDefinition ?sd 8 s = Done None s1"
    by (simp add: evals)
  then obtain s s1 where a: "startup ?sd ''def 1 2'' = Done () s" "CurTok s = tok_def"
      "ParseDefinition ?sd 8 s = Done None s1" by blast
  then have a': "parse_fails ?sd 8 s s1" by (simp add: parse_fails_def)
  from T [where s = s and ?s1.0 = s1] a a'
  have 1: "\<exists>s s1. startup ?sd ''def 1 2'' = Done () s \<and> CurTok s = tok_def \<and>
      ParseDefinition ?sd 8 s = Done None s1 \<and> parse_fails ?sd 8 s s1 \<and>
      HandleDefinition ?sd ?F 8 s = bind (getNextToken ?sd s1) (\<lambda>_ s2. Done () s2) \<and>
      MainLoop ?sd ?F (Suc 8) s = bind (getNextToken ?sd s1) (\<lambda>_ s2. MainLoop ?sd ?F 8 s2) \<and>
      (\<exists>m. out s1 = out s @ [Stdout (''Error: '' @ m)]) \<and> TheModule s1 = TheModule s"
    by blast
  have "\<exists>s s1. startup ?sd ''extern 1 2'' = Done () s \<and> CurTok s = tok_extern \<and>
      ParseExtern ?sd 8 s = Done None s1"
    by (simp add: evals)
  then obtain s s1 where b: "startup ?sd ''extern 1 2'' = Done () s" "CurTok s = tok_extern"
      "ParseExtern ?sd 8 s = Done None s1" by blast
  then have b': "parse_fails ?sd 8 s s1" by (simp add: parse_fails_def)
  from T [where s = s and ?s1.0 = s1] b b'
  have 2: "\<exists>s s1. startup ?sd ''extern 1 2'' = Done () s \<and> CurTok s = tok_extern \<and>
      ParseExtern ?sd 8 s = Done None s1 \<and> parse_fails ?sd 8 s s1 \<and>
      HandleExtern ?sd 8 s = bind (getNextToken ?sd s1) (\<lambda>_ s2. Done () s2) \<and>
      MainLoop ?sd ?F (Suc 8) s = bind (getNextToken ?sd s1) (\<lambda>_ s2. MainLoop ?sd ?F 8 s2) \<and>
      (\<exists>m. out s1 = out s @ [Stdout (''Error: '' @ m)]) \<and> TheModule s1 = TheModule s"
    by blast
  have "\<exists>s s1. startup ?sd '') 1'' = Done () s \<and> CurTok s = of_char CHR '')'' \<and>
      ParseTopLevelExpr ?sd 8 s = Done None s1"
    by (simp add: evals)
  then obtain s s1 where c: "startup ?sd '') 1'' = Done () s" "CurTok s = of_char CHR '')''"
      "ParseTopLevelExpr ?sd 8 s = Done None s1" by blast
  from c(2) have c': "CurTok s \<noteq> tok_identifier \<and> CurTok s \<noteq> tok_number \<and>
      CurTok s \<noteq> of_char CHR ''(''" by simp
  from c have c'': "parse_fails ?sd 8 s s1" by (simp add: parse_fails_def)
  from parse_failure_skips_one_token [where strtod = ?sd and n = 6 and s = s] c' c(3)
  have c3: "s1 = LogError ''Unknown token when expecting an expression'' s"
    by (simp add: eval_nat_numeral)
  from T [where s = s and ?s1.0 = s1] c c'' c3
  have 3: "\<exists>s s1. startup ?sd '') 1'' = Done () s \<and> CurTok s = of_char CHR '')'' \<and>
      ParseTopLevelExpr ?sd 8 s = Done None s1 \<and> parse_fails ?sd 8 s s1 \<and>
      s1 = LogError ''Unknown token when expecting an expression'' s \<and>
      HandleTopLevelExpression ?sd ?F 8 s = bind (getNextToken ?sd s1) (\<lambda>_ s2. Done () s2) \<and>
      MainLoop ?sd ?F (Suc 8) s = bind (getNextToken ?sd s1) (\<lambda>_ s2. MainLoop ?sd ?F 8 s2) \<and>
      (\<exists>m. out s1 = out s @ [Stdout (''Error: '' @ m)]) \<and> TheModule s1 = TheModule s"
    by blast
  let ?input = "''def f(x ,'' @ [CHR 0x0A] @ ''4''"
  have "\<exists>s s1. startup ?sd ?input = Done () s \<and> parse_fails ?sd 52 s s1 \<and>
      isspace (LastChar s1) \<and> EOF \<le> LastChar s1 \<and> stdin s1 = ''4'' \<and>
      out s1 = [Stdout ''ready> '', Stdout (''Error: Expected ')' in prototype'')]"
    by (simp add: evals parse_fails_def isspace_def)
  then obtain s s1 where d: "startup ?sd ?input = Done () s" "parse_fails ?sd 52 s s1"
      "isspace (LastChar s1)" "EOF \<le> LastChar s1" "stdin s1 = ''4''"
      "out s1 = [Stdout ''ready> '', Stdout (''Error: Expected ')' in prototype'')]"
    by blast
  have l: "4 * length ?input + 8 \<le> (52 :: nat)" by simp
  note T52 = parse_failure_skips_one_token [where strtod = ?sd and Folder = ?F and n = 52
      and s = s and ?s1.0 = s1 and input = ?input]
  note A = T52 [THEN conjunct2, THEN conjunct2, THEN conjunct2, THEN conjunct2, THEN conjunct1]
  note B = T52 [THEN conjunct2, THEN conjunct2, THEN conjunct2, THEN conjunct2, THEN conjunct2,
      THEN conjunct1]
  from A d(2,4) have ra: "resumed_result (out s) (out s1)
        (bind (getNextToken ?sd (s\<lparr>stdin := stdin s1, LastChar := LastChar s1\<rparr>))
           (\<lambda>_ s2. MainLoop ?sd ?F 52 s2))
        (MainLoop ?sd ?F (Suc 52) s)"
    by blast
  from B d(1,2,3) l have rb:
    "resumed_result [Stdout ''ready> ''] (out s1)
       (main ?sd ?F 52 (stdin s1)) (main ?sd ?F (Suc 52) ?input) \<and>
     main ?sd ?F (Suc 52) ?input \<noteq> OutOfFuel \<and> main ?sd ?F 52 (stdin s1) \<noteq> OutOfFuel"
    by blast
  from d l ra rb [unfolded d(5)]
  have 4: "\<exists>s s1. startup ?sd ?input = Done () s \<and>
      parse_fails ?sd 52 s s1 \<and> isspace (LastChar s1) \<and> EOF \<le> LastChar s1 \<and>
      stdin s1 = ''4'' \<and> 4 * length ?input + 8 \<le> (52 :: nat) \<and>
      out s1 = [Stdout ''ready> '', Stdout (''Error: Expected ')' in prototype'')] \<and>
      resumed_result (out s) (out s1)
        (bind (getNextToken ?sd (s\<lparr>stdin := stdin s1, LastChar := LastChar s1\<rparr>))
           (\<lambda>_ s2. MainLoop ?sd ?F 52 s2))
        (MainLoop ?sd ?F (Suc 52) s) \<and>
      resumed_result [Stdout ''ready> ''] (out s1) (main ?sd ?F 52 ''4'') (main ?sd ?F (Suc 52) ?input) \<and>
      main ?sd ?F (Suc 52) ?input \<noteq> OutOfFuel \<and> main ?sd ?F 52 ''4'' \<noteq> OutOfFuel"
    by blast
  from 1 2 3 4 show ?thesis by (intro conjI)
qed

text \<open>
  C9 as stated fails: on the invalid line \<open>def f(x y\<close> followed by the valid line \<open>4+5\<close>
  the parse fails at the token \<open>4\<close>, which the handler discards; the expression parser
  then fails at \<open>+\<close> with a second error, and the function lowered is the one of \<open>5\<close>
  alone.
\<close>

theorem invalid_line_counterexample:
  "(case main (\<lambda>t. t) (\<lambda>_. None) 12 (''def f(x y'' @ [CHR 0x0A] @ ''4+5'') of
      Done _ s \<Rightarrow> out s
    | _ \<Rightarrow> []) =
     [Stdout ''ready> '',
      Stdout (''Error: Expected ')' in prototype''),
      Stdout ''Error: Unknown token when expecting an expression'',
      Stdout ''Parsed a top-level expression:'',
      PrintFunction \<lparr>fn_name = [], fn_args = [], fn_blocks = [[Ret (ConstantFP ''5'')]]\<rparr>,
      Stdout [],
      PrintModule \<lparr>Functions = [], NextAddr = 1\<rparr>]"
  by (simp add: lexer_eval parser_eval driver_eval codegen_eval eval_nat_numeral)

subsection \<open>Rollback of a failed definition\<close>

text \<open>
  C5. Lowering a definition in a well-formed module leaves every function either as it
  was or with a body that is present and passes verification (one block ending in its
  only terminator). On failure nothing new remains: the functions of the module are
  among those it had, so the partially built function is gone and the null pointer is
  returned. On success the function returned is in the module with a verified body.
  Over a whole run the module stays sound between top-level constructs, from the main
  loop's start to the module that \<open>main\<close> prints: no function is broken, and only
  extern declarations lack a body. A budget of four units for each character of the
  input and nine more is enough for the run to end.
\<close>

theorem failed_definition_is_rolled_back:
  "(wf_module (TheModule s) \<and> FunctionAST_codegen Folder FnAST s = (r, s') \<longrightarrow>
      (\<forall>(F, f) \<in> set (Functions (TheModule s')).
          (F, f) \<in> set (Functions (TheModule s)) \<or> (fn_blocks f \<noteq> [] \<and> \<not> verifyFunction f)) \<and>
      (r = None \<longrightarrow> set (Functions (TheModule s')) \<subseteq> set (Functions (TheModule s))) \<and>
      (\<forall>F. r = Some F \<longrightarrow>
          (\<exists>f. function_at (TheModule s') F = Some f \<and> fn_blocks f \<noteq> [] \<and> \<not> verifyFunction f)) \<and>
      wf_module (TheModule s')) \<and>
   (sound_module (TheModule s) \<and> MainLoop strtod Folder n s = Done u s1 \<longrightarrow>
      sound_module (TheModule s1)) \<and>
   (main strtod Folder n input = Done v s2 \<longrightarrow> sound_module (TheModule s2)) \<and>
   (4 * length input + 9 \<le> n \<longrightarrow> main strtod Folder n input \<noteq> OutOfFuel)"
proof (intro conjI impI)
  assume a: "wf_module (TheModule s) \<and> FunctionAST_codegen Folder FnAST s = (r, s')"
  note w = FunctionAST_codegen_wf [OF conjunct1 [OF a] conjunct2 [OF a]]
  from w show "\<forall>(F, f) \<in> set (Functions (TheModule s')).
          (F, f) \<in> set (Functions (TheModule s)) \<or> (fn_blocks f \<noteq> [] \<and> \<not> verifyFunction f)"
    by blast
  from w show "set (Functions (TheModule s')) \<subseteq> set (Functions (TheModule s))" if "r = None"
    using that by blast
  from w show "\<forall>F. r = Some F \<longrightarrow>
          (\<exists>f. function_at (TheModule s') F = Some f \<and> fn_blocks f \<noteq> [] \<and> \<not> verifyFunction f)"
    by blast
  from w show "wf_module (TheModule s')" by blast
next
  assume "sound_module (TheModule s) \<and> MainLoop strtod Folder n s = Done u s1"
  with postD(1) [OF main_sound(1), of s strtod Folder n u s1]
  show "sound_module (TheModule s1)" by blast
next
  assume "main strtod Folder n input = Done v s2"
  with postD(1) [OF main_sound(2), of strtod Folder n input v s2]
  show "sound_module (TheModule s2)" by blast
next
  assume "4 * length input + 9 \<le> n"
  then show "main strtod Folder n input \<noteq> OutOfFuel" by (rule main_budget)
qed

text \<open>
  The theorem at work: in the empty module \<open>def f(x) y\<close> fails and leaves no function,
  \<open>def f(x) x\<close> succeeds, and the program run on both definitions ends with a sound
  module; the input has 21 characters, and a budget of 93 is enough.
\<close>

theorem failed_definition_is_rolled_back_witness:
  "(let s = InitializeModule (initial_state (\<lambda>t. t) []);
        bad = FunctionAST_codegen (\<lambda>_. None)
                (FunctionAST (PrototypeAST ''f_def'' [''x'']) (VariableExprAST ''y'')) s;
        good = FunctionAST_codegen (\<lambda>_. None)
                (FunctionAST (PrototypeAST ''f_def'' [''x'']) (VariableExprAST ''x'')) s
    in wf_module (TheModule s) \<and>
       fst bad = None \<and> set (Functions (TheModule (snd bad))) \<subseteq> set (Functions (TheModule s)) \<and>
       wf_module (TheModule (snd bad)) \<and>
       fst good = Some 0 \<and> wf_module (TheModule (snd good)) \<and>
       (\<exists>f. function_at (TheModule (snd good)) 0 = Some f \<and> fn_blocks f \<noteq> [] \<and> \<not> verifyFunction f)) \<and>
   (\<exists>s u s1. startup (\<lambda>t. t) ''def f(x) y def g(x) x'' = Done () s \<and>
      sound_module (TheModule s) \<and>
      MainLoop (\<lambda>t. t) (\<lambda>_. None) 12 s = Done u s1 \<and> sound_module (TheModule s1)) \<and>
   (\<exists>v s2. main (\<lambda>t. t) (\<lambda>_. None) 12 ''def f(x) y def g(x) x'' = Done v s2 \<and>
      sound_module (TheModule s2)) \<and>
   4 * length ''def f(x) y def g(x) x'' + 9 \<le> (93 :: nat) \<and>
   main (\<lambda>t. t) (\<lambda>_. None) 93 ''def f(x) y def g(x) x'' \<noteq> OutOfFuel"
proof -
  note evals = lexer_eval parser_eval driver_eval codegen_eval eval_nat_numeral
  let ?sd = "\<lambda>t :: string. t"
  let ?F = "\<lambda>_ :: string Value. None :: string Value option"
  note T = failed_definition_is_rolled_back [where strtod = ?sd and Folder = ?F]
  let ?A = "InitializeModule (initial_state ?sd [])"
  let ?bad = "FunctionAST_codegen ?F
                (FunctionAST (PrototypeAST ''f_def'' [''x'']) (VariableExprAST ''y'')) ?A"
  let ?good = "FunctionAST_codegen ?F
                (FunctionAST (PrototypeAST ''f_def'' [''x'']) (VariableExprAST ''x'')) ?A"
  have wf: "wf_module (TheModule ?A)"
    by (simp add: InitializeModule_def wf_module_def)
  have b: "?bad = (None, snd ?bad)"
    by (simp add: evals)
  have g: "?good = (Some 0, snd ?good)"
    by (simp add: evals)
  note Tb = T [where s = ?A and r = None and s' = "snd ?bad", THEN conjunct1, THEN mp,
      OF conjI [OF wf b]]
  note Tg = T [where s = ?A and r = "Some 0" and s' = "snd ?good", THEN conjunct1, THEN mp,
      OF conjI [OF wf g]]
  have 1: "fst ?bad = None" by (subst b) simp
  have 2: "set (Functions (TheModule (snd ?bad))) \<subseteq> set (Functions (TheModule ?A))"
    using Tb by blast
  have 3: "wf_module (TheModule (snd ?bad))" using Tb by blast
  have 4: "fst ?good = Some 0" by (subst g) simp
  have 5: "wf_module (TheModule (snd ?good))" using Tg by blast
  have 6: "\<exists>f. function_at (TheModule (snd ?good)) 0 = Some f \<and> fn_blocks f \<noteq> [] \<and> \<not> verifyFunction f"
    using Tg by blast
  have "\<exists>s u s1. startup ?sd ''def f(x) y def g(x) x'' = Done () s \<and>
      TheModule s = \<lparr>Functions = [], NextAddr = 0\<rparr> \<and> MainLoop ?sd ?F 12 s = Done u s1"
    by (simp add: evals)
  then obtain s u s1 where l: "startup ?sd ''def f(x) y def g(x) x'' = Done () s"
      "TheModule s = \<lparr>Functions = [], NextAddr = 0\<rparr>" "MainLoop ?sd ?F 12 s = Done u s1"
    by blast
  have snd: "sound_module (TheModule s)"
    by (simp add: l(2) sound_module_def wf_module_def)
  from T [where s = s and n = 12 and u = u and ?s1.0 = s1, THEN conjunct2, THEN conjunct1,
      THEN mp, OF conjI [OF snd l(3)]]
  have 7: "sound_module (TheModule s1)" .
  have "\<exists>v s2. main ?sd ?F 12 ''def f(x) y def g(x) x'' = Done v s2"
    by (simp add: evals)
  then obtain v s2 where m: "main ?sd ?F 12 ''def f(x) y def g(x) x'' = Done v s2" by blast
  from T [where n = 12 and v = v and ?s2.0 = s2 and input = "''def f(x) y def g(x) x''",
      THEN conjunct2, THEN conjunct2, THEN conjunct1, THEN mp, OF m]
  have 8: "sound_module (TheModule s2)" .
  have 9: "4 * length ''def f(x) y def g(x) x'' + 9 \<le> (93 :: nat)" by simp
  from T [where n = 93 and input = "''def f(x) y def g(x) x''",
      THEN conjunct2, THEN conjunct2, THEN conjunct2, THEN mp, OF 9]
  have C: "main ?sd ?F 93 ''def f(x) y def g(x) x'' \<noteq> OutOfFuel" .
  have A: "\<exists>s u s1. startup ?sd ''def f(x) y def g(x) x'' = Done () s \<and>
      sound_module (TheModule s) \<and>
      MainLoop ?sd ?F 12 s = Done u s1 \<and> sound_module (TheModule s1)"
    using l snd 7 by blast
  have B: "\<exists>v s2. main ?sd ?F 12 ''def f(x) y def g(x) x'' = Done v s2 \<and> sound_module (TheModule s2)"
    using m 8 by blast
  show ?thesis
    unfolding Let_def using wf 1 2 3 4 5 6 A B 9 C by (intro conjI)
qed

subsection \<open>Anonymous top-level expressions\<close>

text \<open>
  C10. The handler of a top-level expression leaves the module's list of functions as it
  found it. When the expression parses and lowers, the handler writes the function's
  rendering and then erases it: the function's address is no longer in the module. The
  module that \<open>main\<close> prints last holds only functions named by a definition
  (\<open>..._def\<close>) or an extern (\<open>..._ext\<close>), none with the empty name of an anonymous
  expression. A budget of four units for each character of the input and nine more is
  enough for the run to end.
\<close>

theorem anonymous_function_is_erased:
  "(wf_module (TheModule s) \<and> HandleTopLevelExpression strtod Folder n s = Done u s' \<longrightarrow>
      Functions (TheModule s') = Functions (TheModule s)) \<and>
   (wf_module (TheModule s) \<and> ParseTopLevelExpr strtod n s = Done (Some fn) s1 \<and>
    FunctionAST_codegen Folder fn s1 = (Some FnIR, s2) \<longrightarrow>
      (\<exists>f s3. HandleTopLevelExpression strtod Folder n s = Done () s3 \<and>
         function_at (TheModule s2) FnIR = Some f \<and>
         out s3 = out s2 @ [Stdout ''Parsed a top-level expression:'', PrintFunction f, Stdout []] \<and>
         FnIR \<notin> fst ` set (Functions (TheModule s3)))) \<and>
   (main strtod Folder n input = Done v s4 \<longrightarrow>
      (\<exists>es. out s4 = es @ [PrintModule (TheModule s4)]) \<and>
      (\<forall>(F, f) \<in> set (Functions (TheModule s4)).
          fn_name f \<noteq> [] \<and> (\<exists>b. fn_name f = b @ ''_def'' \<or> fn_name f = b @ ''_ext''))) \<and>
   (4 * length input + 9 \<le> n \<longrightarrow> main strtod Folder n input \<noteq> OutOfFuel)"
proof (intro conjI impI)
  assume "wf_module (TheModule s) \<and> HandleTopLevelExpression strtod Folder n s = Done u s'"
  with postD(1) [OF HandleTopLevelExpression_module, of s strtod Folder n u s']
  show "Functions (TheModule s') = Functions (TheModule s)" by blast
next
  assume a: "wf_module (TheModule s) \<and> ParseTopLevelExpr strtod n s = Done (Some fn) s1 \<and>
    FunctionAST_codegen Folder fn s1 = (Some FnIR, s2)"
  from a postD(1) [OF ParseTopLevelExpr_module, of strtod n s "Some fn" s1]
  have "wf_module (TheModule s1)" by simp
  from FunctionAST_codegen_wf [OF this] a
  obtain f where f: "function_at (TheModule s2) FnIR = Some f" by blast
  let ?s3 = "cout [] (print_function FnIR (cout ''Parsed a top-level expression:'' s2))"
  have h: "HandleTopLevelExpression strtod Folder n s =
      Done () (?s3\<lparr>TheModule := eraseFromParent FnIR (TheModule ?s3)\<rparr>)"
    using a by (simp add: HandleTopLevelExpression_def Let_def)
  have o: "out (?s3\<lparr>TheModule := eraseFromParent FnIR (TheModule ?s3)\<rparr>) =
      out s2 @ [Stdout ''Parsed a top-level expression:'', PrintFunction f, Stdout []]"
    using f by (simp add: cout_def print_function_def)
  have e: "FnIR \<notin> fst ` set (Functions (TheModule (?s3\<lparr>TheModule := eraseFromParent FnIR (TheModule ?s3)\<rparr>)))"
    by (auto simp: member_eraseFromParent)
  from h f o e show "\<exists>f s3. HandleTopLevelExpression strtod Folder n s = Done () s3 \<and>
         function_at (TheModule s2) FnIR = Some f \<and>
         out s3 = out s2 @ [Stdout ''Parsed a top-level expression:'', PrintFunction f, Stdout []] \<and>
         FnIR \<notin> fst ` set (Functions (TheModule s3))"
    by blast
next
  assume m: "main strtod Folder n input = Done v s4"
  then show "\<exists>es. out s4 = es @ [PrintModule (TheModule s4)]"
    by (rule main_prints_module)
  from m postD(1) [OF main_sound(2), of strtod Folder n input v s4]
  have "sound_module (TheModule s4)" by blast
  then show "\<forall>(F, f) \<in> set (Functions (TheModule s4)).
          fn_name f \<noteq> [] \<and> (\<exists>b. fn_name f = b @ ''_def'' \<or> fn_name f = b @ ''_ext'')"
    unfolding sound_module_def by fastforce
next
  assume "4 * length input + 9 \<le> n"
  then show "main strtod Folder n input \<noteq> OutOfFuel" by (rule main_budget)
qed

text \<open>
  The theorem at work: the expression \<open>1+2\<close> is rendered and erased, and the program run
  on two expressions, a definition and an extern prints a module of \<open>f_def\<close> and
  \<open>g_ext\<close>; the input has 28 characters, and a budget of 121 is enough.
\<close>

theorem anonymous_function_is_erased_witness:
  "(\<exists>s fn s1 FnIR s2 f s3.
      startup (\<lambda>t. t) ''1+2'' = Done () s \<and> wf_module (TheModule s) \<and>
      ParseTopLevelExpr (\<lambda>t. t) 8 s = Done (Some fn) s1 \<and>
      FunctionAST_codegen (\<lambda>_. None) fn s1 = (Some FnIR, s2) \<and>
      HandleTopLevelExpression (\<lambda>t. t) (\<lambda>_. None) 8 s = Done () s3 \<and>
      function_at (TheModule s2) FnIR = Some f \<and>
      out s3 = out s2 @ [Stdout ''Parsed a top-level expression:'', PrintFunction f, Stdout []] \<and>
      FnIR \<notin> fst ` set (Functions (TheModule s3)) \<and>
      Functions (TheModule s3) = Functions (TheModule s)) \<and>
   (\<exists>v s4. main (\<lambda>t. t) (\<lambda>_. None) 12 ''1+2 def f(x) x extern g(y) 3'' = Done v s4 \<and>
      (\<exists>es. out s4 = es @ [PrintModule (TheModule s4)]) \<and>
      map (\<lambda>p. fn_name (snd p)) (Functions (TheModule s4)) = [''f_def'', ''g_ext''] \<and>
      (\<forall>(F, f) \<in> set (Functions (TheModule s4)).
          fn_name f \<noteq> [] \<and> (\<exists>b. fn_name f = b @ ''_def'' \<or> fn_name f = b @ ''_ext''))) \<and>
   4 * length ''1+2 def f(x) x extern g(y) 3'' + 9 \<le> (121 :: nat) \<and>
   main (\<lambda>t. t) (\<lambda>_. None) 121 ''1+2 def f(x) x extern g(y) 3'' \<noteq> OutOfFuel"
proof -
  note evals = lexer_eval parser_eval driver_eval codegen_eval eval_nat_numeral
  let ?sd = "\<lambda>t :: string. t"
  let ?F = "\<lambda>_ :: string Value. None :: string Value option"
  note T = anonymous_function_is_erased [where strtod = ?sd and Folder = ?F]
  have "\<exists>s fn s1 FnIR s2. startup ?sd ''1+2'' = Done () s \<and>
      TheModule s = \<lparr>Functions = [], NextAddr = 0\<rparr> \<and>
      ParseTopLevelExpr ?sd 8 s = Done (Some fn) s1 \<and>
      FunctionAST_codegen ?F fn s1 = (Some FnIR, s2)"
    by (simp add: evals)
  then obtain s fn s1 FnIR s2 where a: "startup ?sd ''1+2'' = Done () s"
      "TheModule s = \<lparr>Functions = [], NextAddr = 0\<rparr>"
      "ParseTopLevelExpr ?sd 8 s = Done (Some fn) s1"
      "FunctionAST_codegen ?F fn s1 = (Some FnIR, s2)"
    by blast
  have wf: "wf_module (TheModule s)"
    by (simp add: a(2) wf_module_def)
  from T [where s = s and n = 8 and fn = fn and ?s1.0 = s1 and FnIR = FnIR and ?s2.0 = s2,
      THEN conjunct2, THEN conjunct1, THEN mp, OF conjI [OF wf conjI [OF a(3) a(4)]]]
  obtain f s3 where b: "HandleTopLevelExpression ?sd ?F 8 s = Done () s3"
      "function_at (TheModule s2) FnIR = Some f"
      "out s3 = out s2 @ [Stdout ''Parsed a top-level expression:'', PrintFunction f, Stdout []]"
      "FnIR \<notin> fst ` set (Functions (TheModule s3))"
    by blast
  from T [where s = s and n = 8 and u = "()" and s' = s3, THEN conjunct1, THEN mp,
      OF conjI [OF wf b(1)]]
  have c: "Functions (TheModule s3) = Functions (TheModule s)" .
  have 1: "\<exists>s fn s1 FnIR s2 f s3.
      startup ?sd ''1+2'' = Done () s \<and> wf_module (TheModule s) \<and>
      ParseTopLevelExpr ?sd 8 s = Done (Some fn) s1 \<and>
      FunctionAST_codegen ?F fn s1 = (Some FnIR, s2) \<and>
      HandleTopLevelExpression ?sd ?F 8 s = Done () s3 \<and>
      function_at (TheModule s2) FnIR = Some f \<and>
      out s3 = out s2 @ [Stdout ''Parsed a top-level expression:'', PrintFunction f, Stdout []] \<and>
      FnIR \<notin> fst ` set (Functions (TheModule s3)) \<and>
      Functions (TheModule s3) = Functions (TheModule s)"
    using a wf b c by blast
  have "\<exists>v s4. main ?sd ?F 12 ''1+2 def f(x) x extern g(y) 3'' = Done v s4 \<and>
      map (\<lambda>p. fn_name (snd p)) (Functions (TheModule s4)) = [''f_def'', ''g_ext'']"
    by (simp add: evals)
  then obtain v s4 where m: "main ?sd ?F 12 ''1+2 def f(x) x extern g(y) 3'' = Done v s4"
      "map (\<lambda>p. fn_name (snd p)) (Functions (TheModule s4)) = [''f_def'', ''g_ext'']"
    by auto
  note Tm = T [where n = 12 and v = v and ?s4.0 = s4 and input = "''1+2 def f(x) x extern g(y) 3''",
      THEN conjunct2, THEN conjunct2, THEN conjunct1, THEN mp, OF m(1)]
  have 2: "\<exists>v s4. main ?sd ?F 12 ''1+2 def f(x) x extern g(y) 3'' = Done v s4 \<and>
      (\<exists>es. out s4 = es @ [PrintModule (TheModule s4)]) \<and>
      map (\<lambda>p. fn_name (snd p)) (Functions (TheModule s4)) = [''f_def'', ''g_ext''] \<and>
      (\<forall>(F, f) \<in> set (Functions (TheModule s4)).
          fn_name f \<noteq> [] \<and> (\<exists>b. fn_name f = b @ ''_def'' \<or> fn_name f = b @ ''_ext''))"
    using m Tm by auto
  have 3: "4 * length ''1+2 def f(x) x extern g(y) 3'' + 9 \<le> (121 :: nat)" by simp
  from T [where n = 121 and input = "''1+2 def f(x) x extern g(y) 3''",
      THEN conjunct2, THEN conjunct2, THEN conjunct2, THEN mp, OF 3]
  have 4: "main ?sd ?F 121 ''1+2 def f(x) x extern g(y) 3'' \<noteq> OutOfFuel" .
  from 1 2 3 4 show ?thesis by (intro conjI)
qed

end
